theory Spec2Isabelle
  imports Main "HOL-Library.Monad_Syntax"
begin

section \<open>EntityFu: the entity table and the component table\<close>

text \<open>
  The source is \<^verbatim>\<open>EntityFu.cpp\<close>. The two values it takes from its header
  \<^verbatim>\<open>EntityFu.h\<close> are parameters of the model, in the record \<open>config\<close>: the capacity
  constant \<^verbatim>\<open>kMaxEntities\<close> and the number of registered component types
  \<^verbatim>\<open>Component::numCids\<close>, which no function of the file writes. \<^verbatim>\<open>Eid\<close> and \<^verbatim>\<open>Cid\<close> are
  unsigned integers (they are printed with \<^verbatim>\<open>%u\<close>); the only arithmetic on them is
  \<^verbatim>\<open>++eid\<close> and \<^verbatim>\<open>++cid\<close> under the guards \<^verbatim>\<open>eid < kMaxEntities\<close> and \<^verbatim>\<open>cid < numCids\<close>,
  which cannot wrap, so they are natural numbers here. The counter of \<^verbatim>\<open>count()\<close> is an
  \<^verbatim>\<open>int\<close> that counts at most \<^verbatim>\<open>kMaxEntities - 1\<close> flags; it is a natural number too.

  A \<^verbatim>\<open>Component*\<close> is the address of a heap object; \<^verbatim>\<open>nullptr\<close> is \<open>None\<close>.
  The three global pointers \<^verbatim>\<open>entities\<close>, \<^verbatim>\<open>components\<close> and \<^verbatim>\<open>componentEids\<close> are
  \<open>None\<close> while they are \<^verbatim>\<open>nullptr\<close>. Every \<^verbatim>\<open>delete ptr\<close> of a component is recorded, in
  order, in the field \<open>deleted\<close>: the objects the table has destroyed. The table never
  allocates or dereferences a component, so the heap itself is not part of the state.
  Every unconditional \<^verbatim>\<open>Log\<close> is recorded in the field \<open>logged\<close>.
  The file-static \<^verbatim>\<open>verbosity\<close> is initialised to 0 and never assigned, so the
  branches under \<^verbatim>\<open>verbosity > 0\<close> are dead and left out. \<^verbatim>\<open>kTrustPointers\<close> is defined
  as 0, so \<^verbatim>\<open>getComponent\<close> is compiled in its checked form.

  Operations that index an array return an \<open>option\<close>: \<open>None\<close> stands for the undefined
  behaviour of C++ (indexing through a null table or outside its bounds).
\<close>

type_synonym Eid = nat
type_synonym Cid = nat
type_synonym cptr = nat

record config =
  kMaxEntities :: nat
  numCids :: nat

record ecs =
  entities :: "bool list option"
  components :: "cptr option list list option"
  componentEids :: "Eid list list option"
  deleted :: "cptr list"
  logged :: "string list"

text \<open>The static initialisers of lines 28-30: all three tables are \<^verbatim>\<open>nullptr\<close>.\<close>

definition init :: ecs where
  "init = \<lparr>entities = None, components = None, componentEids = None, deleted = [], logged = []\<rparr>"

subsection \<open>Array accesses\<close>

definition entities_rd :: "ecs \<Rightarrow> Eid \<Rightarrow> bool option" where
  "entities_rd s eid =
     (case entities s of None \<Rightarrow> None
      | Some es \<Rightarrow> if eid < length es then Some (es ! eid) else None)"

definition entities_wr :: "Eid \<Rightarrow> bool \<Rightarrow> ecs \<Rightarrow> ecs option" where
  "entities_wr eid b s =
     (case entities s of None \<Rightarrow> None
      | Some es \<Rightarrow> if eid < length es then Some (s\<lparr>entities := Some (es[eid := b])\<rparr>) else None)"

definition components_rd :: "ecs \<Rightarrow> Cid \<Rightarrow> Eid \<Rightarrow> cptr option option" where
  "components_rd s cid eid =
     (case components s of None \<Rightarrow> None
      | Some cs \<Rightarrow>
          if cid < length cs \<and> eid < length (cs ! cid) then Some (cs ! cid ! eid) else None)"

definition components_wr :: "Cid \<Rightarrow> Eid \<Rightarrow> cptr option \<Rightarrow> ecs \<Rightarrow> ecs option" where
  "components_wr cid eid c s =
     (case components s of None \<Rightarrow> None
      | Some cs \<Rightarrow>
          if cid < length cs \<and> eid < length (cs ! cid)
          then Some (s\<lparr>components := Some (cs[cid := (cs ! cid)[eid := c]])\<rparr>) else None)"

definition componentEids_rd :: "ecs \<Rightarrow> Cid \<Rightarrow> Eid list option" where
  "componentEids_rd s cid =
     (case componentEids s of None \<Rightarrow> None
      | Some ces \<Rightarrow> if cid < length ces then Some (ces ! cid) else None)"

definition componentEids_wr :: "Cid \<Rightarrow> Eid list \<Rightarrow> ecs \<Rightarrow> ecs option" where
  "componentEids_wr cid eids s =
     (case componentEids s of None \<Rightarrow> None
      | Some ces \<Rightarrow>
          if cid < length ces then Some (s\<lparr>componentEids := Some (ces[cid := eids])\<rparr>) else None)"

subsection \<open>The operations\<close>

text \<open>\<^verbatim>\<open>Entity::alloc\<close> (lines 32-57): the two initialising loops are \<open>replicate\<close>.\<close>

definition alloc :: "config \<Rightarrow> ecs \<Rightarrow> ecs" where
  "alloc cfg s =
     (if components s \<noteq> None then s
      else s\<lparr>entities := Some (replicate (kMaxEntities cfg) False),
             components := Some (replicate (numCids cfg) (replicate (kMaxEntities cfg) None)),
             componentEids := Some (replicate (numCids cfg) [])\<rparr>)"

text \<open>
  \<^verbatim>\<open>Entity::removeComponent\<close> (lines 155-189). The guard is evaluated left to right as
  \<^verbatim>\<open>||\<close> does; \<^verbatim>\<open>find\<close> followed by \<^verbatim>\<open>erase\<close> of the iterator removes the first
  occurrence, which is \<open>remove1\<close>.
\<close>

definition removeComponent :: "config \<Rightarrow> Cid \<Rightarrow> Eid \<Rightarrow> ecs \<Rightarrow> ecs option" where
  "removeComponent cfg cid eid s =
     (if eid \<ge> kMaxEntities cfg then Some s
      else do {
        live \<leftarrow> entities_rd s eid;
        if \<not> live \<or> cid \<ge> numCids cfg then Some s
        else do {
          ptr \<leftarrow> components_rd s cid eid;
          case ptr of
            None \<Rightarrow> Some s
          | Some p \<Rightarrow> do {
              s1 \<leftarrow> components_wr cid eid None (s\<lparr>deleted := deleted s @ [p]\<rparr>);
              eids \<leftarrow> componentEids_rd s1 cid;
              componentEids_wr cid (remove1 eid eids) s1
            }
        }
      })"

text \<open>\<^verbatim>\<open>Entity::addComponent\<close> (lines 124-153).\<close>

definition addComponent :: "config \<Rightarrow> Cid \<Rightarrow> Eid \<Rightarrow> cptr option \<Rightarrow> ecs \<Rightarrow> ecs option" where
  "addComponent cfg cid eid c s =
     (case c of
        None \<Rightarrow> Some s
      | Some p \<Rightarrow>
          if eid \<ge> kMaxEntities cfg then Some s
          else do {
            live \<leftarrow> entities_rd s eid;
            if \<not> live \<or> cid \<ge> numCids cfg then Some s
            else do {
              old \<leftarrow> components_rd s cid eid;
              s1 \<leftarrow> (if old \<noteq> None then removeComponent cfg cid eid s else Some s);
              s2 \<leftarrow> components_wr cid eid (Some p) s1;
              eids \<leftarrow> componentEids_rd s2 cid;
              componentEids_wr cid (eids @ [eid]) s2
            }
          })"

text \<open>\<^verbatim>\<open>Entity::destroyNow\<close> (lines 105-115): the loop over the component types, then the flag.\<close>

function destroyNow_loop :: "config \<Rightarrow> Eid \<Rightarrow> Cid \<Rightarrow> ecs \<Rightarrow> ecs option" where
  "destroyNow_loop cfg eid cid s =
     (if cid < numCids cfg
      then (case removeComponent cfg cid eid s of
              None \<Rightarrow> None
            | Some s' \<Rightarrow> destroyNow_loop cfg eid (Suc cid) s')
      else Some s)"
  by pat_completeness auto
termination
  by (relation "measure (\<lambda>(cfg, eid, cid, s). numCids cfg - cid)") auto

definition destroyNow :: "config \<Rightarrow> Eid \<Rightarrow> ecs \<Rightarrow> ecs option" where
  "destroyNow cfg eid s =
     (if eid = 0 then Some s
      else do {
        s1 \<leftarrow> destroyNow_loop cfg eid 0 s;
        entities_wr eid False s1
      })"

text \<open>\<^verbatim>\<open>Entity::destroyAll\<close> (lines 117-122).\<close>

function destroyAll_loop :: "config \<Rightarrow> Eid \<Rightarrow> ecs \<Rightarrow> ecs option" where
  "destroyAll_loop cfg eid s =
     (if eid < kMaxEntities cfg
      then (case entities_rd s eid of
              None \<Rightarrow> None
            | Some live \<Rightarrow>
                (case (if live then destroyNow cfg eid s else Some s) of
                   None \<Rightarrow> None
                 | Some s' \<Rightarrow> destroyAll_loop cfg (Suc eid) s'))
      else Some s)"
  by pat_completeness auto
termination
  by (relation "measure (\<lambda>(cfg, eid, s). kMaxEntities cfg - eid)") auto

definition destroyAll :: "config \<Rightarrow> ecs \<Rightarrow> ecs option" where
  "destroyAll cfg s = destroyAll_loop cfg 1 s"

text \<open>
  \<^verbatim>\<open>Entity::dealloc\<close> (lines 59-82). Freeing the arrays and resetting the three pointers
  is the final update; the component objects are destroyed by \<^verbatim>\<open>destroyAll\<close> before.
\<close>

definition dealloc :: "config \<Rightarrow> ecs \<Rightarrow> ecs option" where
  "dealloc cfg s = do {
     s1 \<leftarrow> (if components s \<noteq> None then destroyAll cfg s else Some s);
     Some (s1\<lparr>entities := None, components := None, componentEids := None\<rparr>)
   }"

text \<open>
  \<^verbatim>\<open>Entity::create\<close> (lines 84-103): the scanning loop of line 90, then the test of
  line 94. The result is the value of \<^verbatim>\<open>eid\<close> after the loop in both branches.
\<close>

function create_scan :: "config \<Rightarrow> ecs \<Rightarrow> Eid \<Rightarrow> Eid option" where
  "create_scan cfg s eid =
     (if eid < kMaxEntities cfg
      then (case entities_rd s eid of
              None \<Rightarrow> None
            | Some live \<Rightarrow> if live then create_scan cfg s (Suc eid) else Some eid)
      else Some eid)"
  by pat_completeness auto
termination
  by (relation "measure (\<lambda>(cfg, s, eid). kMaxEntities cfg - eid)") auto

definition create :: "config \<Rightarrow> ecs \<Rightarrow> (Eid \<times> ecs) option" where
  "create cfg s0 =
     (let s = alloc cfg s0 in
      do {
        eid \<leftarrow> create_scan cfg s 1;
        if eid < 1 \<or> eid \<ge> kMaxEntities cfg
        then Some (eid, s\<lparr>logged := logged s @ [''Maximum number of entities reached!'']\<rparr>)
        else do {
          s' \<leftarrow> entities_wr eid True s;
          Some (eid, s')
        }
      })"

text \<open>\<^verbatim>\<open>Entity::getComponent\<close> (lines 191-203), checked form.\<close>

definition getComponent :: "config \<Rightarrow> Cid \<Rightarrow> Eid \<Rightarrow> ecs \<Rightarrow> cptr option option" where
  "getComponent cfg cid eid s =
     (if eid < kMaxEntities cfg \<and> cid < numCids cfg then components_rd s cid eid
      else Some None)"

text \<open>\<^verbatim>\<open>Entity::getAll\<close> (lines 205-211); \<^verbatim>\<open>blankEids\<close> is never written, so it is \<open>[]\<close>.\<close>

definition getAll :: "config \<Rightarrow> Cid \<Rightarrow> ecs \<Rightarrow> Eid list option" where
  "getAll cfg cid s = (if cid < numCids cfg then componentEids_rd s cid else Some [])"

text \<open>\<^verbatim>\<open>Entity::count()\<close> (lines 213-220) and \<^verbatim>\<open>Entity::count(Cid)\<close> (lines 222-225).\<close>

function count_loop :: "config \<Rightarrow> ecs \<Rightarrow> Eid \<Rightarrow> nat \<Rightarrow> nat option" where
  "count_loop cfg s eid ret =
     (if eid < kMaxEntities cfg
      then (case entities_rd s eid of
              None \<Rightarrow> None
            | Some live \<Rightarrow> count_loop cfg s (Suc eid) (if live then ret + 1 else ret))
      else Some ret)"
  by pat_completeness auto
termination
  by (relation "measure (\<lambda>(cfg, s, eid, ret). kMaxEntities cfg - eid)") auto

definition count :: "config \<Rightarrow> ecs \<Rightarrow> nat option" where
  "count cfg s = count_loop cfg s 1 0"

definition count_cid :: "config \<Rightarrow> Cid \<Rightarrow> ecs \<Rightarrow> nat option" where
  "count_cid cfg cid s = map_option length (getAll cfg cid s)"

declare destroyNow_loop.simps [simp del]
declare destroyAll_loop.simps [simp del]
declare create_scan.simps [simp del]
declare count_loop.simps [simp del]

subsection \<open>Sequences of calls\<close>

datatype call =
    Create
  | DestroyNow Eid
  | DestroyAll
  | AddComponent Cid Eid "cptr option"
  | RemoveComponent Cid Eid

fun step :: "config \<Rightarrow> call \<Rightarrow> ecs \<Rightarrow> ecs option" where
  "step cfg Create s = map_option snd (create cfg s)"
| "step cfg (DestroyNow eid) s = destroyNow cfg eid s"
| "step cfg DestroyAll s = destroyAll cfg s"
| "step cfg (AddComponent cid eid c) s = addComponent cfg cid eid c s"
| "step cfg (RemoveComponent cid eid) s = removeComponent cfg cid eid s"

fun run :: "config \<Rightarrow> call list \<Rightarrow> ecs \<Rightarrow> ecs option" where
  "run cfg [] s = Some s"
| "run cfg (c # cs) s = (case step cfg c s of None \<Rightarrow> None | Some s' \<Rightarrow> run cfg cs s')"

text \<open>
  The calls whose arguments the operations handle: \<^verbatim>\<open>destroyNow\<close> is the one operation
  that indexes a table with its argument unchecked (line 114), so its identifier has to
  be 0 or below \<^verbatim>\<open>kMaxEntities\<close>; the others take any arguments.
\<close>

fun defined_call :: "config \<Rightarrow> call \<Rightarrow> bool" where
  "defined_call cfg (DestroyNow eid) = (eid = 0 \<or> eid < kMaxEntities cfg)"
| "defined_call cfg c = True"

text \<open>\<^verbatim>\<open>create()\<close> called \<open>n\<close> times in a row, with the identifiers it returned.\<close>

fun create_many :: "config \<Rightarrow> nat \<Rightarrow> ecs \<Rightarrow> (Eid list \<times> ecs) option" where
  "create_many cfg 0 s = Some ([], s)"
| "create_many cfg (Suc n) s =
     (case create cfg s of
        None \<Rightarrow> None
      | Some (e, s1) \<Rightarrow>
          (case create_many cfg n s1 of
             None \<Rightarrow> None
           | Some (es, s2) \<Rightarrow> Some (e # es, s2)))"

subsection \<open>Well-formed states\<close>

text \<open>
  A state is allocated when the three tables exist with the dimensions \<^verbatim>\<open>alloc\<close> gives
  them. It is consistent when moreover, for every component type, the dense id-list has
  no duplicates and holds exactly the in-range identifiers whose slot is occupied.
\<close>

definition allocated :: "config \<Rightarrow> ecs \<Rightarrow> bool" where
  "allocated cfg s =
     (case (entities s, components s, componentEids s) of
        (Some es, Some cs, Some ces) \<Rightarrow>
          length es = kMaxEntities cfg \<and> length cs = numCids cfg \<and>
          (\<forall>row \<in> set cs. length row = kMaxEntities cfg) \<and> length ces = numCids cfg
      | _ \<Rightarrow> False)"

definition dense_ok :: "config \<Rightarrow> ecs \<Rightarrow> Cid \<Rightarrow> bool" where
  "dense_ok cfg s cid =
     (case componentEids_rd s cid of
        None \<Rightarrow> False
      | Some eids \<Rightarrow>
          distinct eids \<and> (\<forall>e \<in> set eids. e < kMaxEntities cfg) \<and>
          (\<forall>eid \<in> {0..<kMaxEntities cfg}.
             (components_rd s cid eid \<noteq> Some None) = (eid \<in> set eids)))"

definition consistent :: "config \<Rightarrow> ecs \<Rightarrow> bool" where
  "consistent cfg s = (allocated cfg s \<and> (\<forall>cid \<in> {0..<numCids cfg}. dense_ok cfg s cid))"

subsection \<open>An example configuration and state\<close>

definition cfg0 :: config where
  "cfg0 = \<lparr>kMaxEntities = 4, numCids = 2\<rparr>"

definition ex1 :: ecs where
  "ex1 = \<lparr>entities = Some [False, True, True, False],
           components = Some [[None, Some 7, Some 8, None], [None, None, Some 9, None]],
           componentEids = Some [[1, 2], [2]], deleted = [], logged = []\<rparr>"

text \<open>The identifiers 1 and 3 live, 2 destroyed.\<close>

definition ex2 :: ecs where
  "ex2 = \<lparr>entities = Some [False, True, False, True],
           components = Some [[None, Some 7, None, None], [None, None, None, Some 9]],
           componentEids = Some [[1], [3]], deleted = [8], logged = []\<rparr>"

text \<open>Three entities with a component of type 0, attached in the order 3, 2, 1.\<close>

definition ex3 :: ecs where
  "ex3 = \<lparr>entities = Some [False, True, True, True],
           components = Some [[None, Some 7, Some 8, Some 9], [None, None, None, None]],
           componentEids = Some [[3, 2, 1], []], deleted = [], logged = []\<rparr>"

text \<open>One entity with one component, the object at address 7.\<close>

definition ex4 :: ecs where
  "ex4 = \<lparr>entities = Some [False, True, False, False],
           components = Some [[None, Some 7, None, None], [None, None, None, None]],
           componentEids = Some [[1], []], deleted = [], logged = []\<rparr>"

text \<open>The pool of \<open>cfg0\<close> filled: the identifiers 1, 2 and 3 are live.\<close>

definition full0 :: ecs where
  "full0 = \<lparr>entities = Some [False, True, True, True],
             components = Some [[None, None, None, None], [None, None, None, None]],
             componentEids = Some [[], []], deleted = [], logged = []\<rparr>"

section \<open>Properties of the operations\<close>

subsection \<open>Allocated states: every in-range access is defined\<close>

lemma allocatedD:
  assumes "allocated cfg s"
  obtains es cs ces where "entities s = Some es" "components s = Some cs"
    "componentEids s = Some ces" "length es = kMaxEntities cfg" "length cs = numCids cfg"
    "\<And>cid. cid < numCids cfg \<Longrightarrow> length (cs ! cid) = kMaxEntities cfg"
    "length ces = numCids cfg"
  using assms by (auto simp: allocated_def split: option.splits)

lemma allocated_alloc: "allocated cfg (alloc cfg init)"
  by (simp add: allocated_def alloc_def init_def)

lemma alloc_allocated: "allocated cfg s \<Longrightarrow> alloc cfg s = s"
  by (auto simp: allocated_def alloc_def split: option.splits)

lemma entities_rd_allocated:
  "allocated cfg s \<Longrightarrow> eid < kMaxEntities cfg \<Longrightarrow> \<exists>b. entities_rd s eid = Some b"
  by (erule allocatedD) (simp add: entities_rd_def)

lemma components_rd_allocated:
  "allocated cfg s \<Longrightarrow> cid < numCids cfg \<Longrightarrow> eid < kMaxEntities cfg \<Longrightarrow>
   \<exists>p. components_rd s cid eid = Some p"
  by (erule allocatedD) (simp add: components_rd_def)

lemma componentEids_rd_allocated:
  "allocated cfg s \<Longrightarrow> cid < numCids cfg \<Longrightarrow> \<exists>l. componentEids_rd s cid = Some l"
  by (erule allocatedD) (simp add: componentEids_rd_def)

text \<open>The effect of the three writes.\<close>

lemma entities_wr_allocated:
  assumes "allocated cfg s" "eid < kMaxEntities cfg"
  shows "\<exists>s'. entities_wr eid b s = Some s' \<and> allocated cfg s' \<and>
     components s' = components s \<and> componentEids s' = componentEids s \<and>
     deleted s' = deleted s \<and> logged s' = logged s \<and>
     (\<forall>e. entities_rd s' e = (if e = eid then Some b else entities_rd s e))"
  using assms(1)
proof (rule allocatedD)
  fix es cs ces
  assume "entities s = Some es" "components s = Some cs" "componentEids s = Some ces"
    "length es = kMaxEntities cfg" "length cs = numCids cfg"
    "\<And>cid. cid < numCids cfg \<Longrightarrow> length (cs ! cid) = kMaxEntities cfg"
    "length ces = numCids cfg"
  with assms show ?thesis
    by (auto simp: entities_wr_def entities_rd_def allocated_def)
qed

lemma components_wr_allocated:
  assumes "allocated cfg s" "cid < numCids cfg" "eid < kMaxEntities cfg"
  shows "\<exists>s'. components_wr cid eid c s = Some s' \<and> allocated cfg s' \<and>
     entities s' = entities s \<and> componentEids s' = componentEids s \<and>
     deleted s' = deleted s \<and> logged s' = logged s \<and>
     (\<forall>c' e. components_rd s' c' e =
        (if c' = cid \<and> e = eid then Some c else components_rd s c' e))"
  using assms(1)
proof (rule allocatedD)
  fix es cs ces
  assume a: "entities s = Some es" "components s = Some cs" "componentEids s = Some ces"
    "length es = kMaxEntities cfg" "length cs = numCids cfg"
    "\<And>cid. cid < numCids cfg \<Longrightarrow> length (cs ! cid) = kMaxEntities cfg"
    "length ces = numCids cfg"
  have "\<forall>row \<in> set cs. length row = kMaxEntities cfg"
    using a(5,6) by (auto simp: in_set_conv_nth)
  then have "\<forall>row \<in> set (cs[cid := (cs ! cid)[eid := c]]). length row = kMaxEntities cfg"
    using a(5,6) assms(2) by (auto simp: in_set_conv_nth nth_list_update)
  with assms a show ?thesis
    by (auto simp: components_wr_def components_rd_def allocated_def nth_list_update)
qed

lemma componentEids_wr_allocated:
  assumes "allocated cfg s" "cid < numCids cfg"
  shows "\<exists>s'. componentEids_wr cid l s = Some s' \<and> allocated cfg s' \<and>
     entities s' = entities s \<and> components s' = components s \<and>
     deleted s' = deleted s \<and> logged s' = logged s \<and>
     (\<forall>c'. componentEids_rd s' c' = (if c' = cid then Some l else componentEids_rd s c'))"
  using assms(1)
proof (rule allocatedD)
  fix es cs ces
  assume "entities s = Some es" "components s = Some cs" "componentEids s = Some ces"
    "length es = kMaxEntities cfg" "length cs = numCids cfg"
    "\<And>cid. cid < numCids cfg \<Longrightarrow> length (cs ! cid) = kMaxEntities cfg"
    "length ces = numCids cfg"
  with assms show ?thesis
    by (auto simp: componentEids_wr_def componentEids_rd_def allocated_def)
qed

text \<open>Each read depends on its own table only.\<close>

lemma entities_rd_cong: "entities s' = entities s \<Longrightarrow> entities_rd s' eid = entities_rd s eid"
  by (simp add: entities_rd_def)

lemma components_rd_cong:
  "components s' = components s \<Longrightarrow> components_rd s' cid eid = components_rd s cid eid"
  by (simp add: components_rd_def)

lemma componentEids_rd_cong:
  "componentEids s' = componentEids s \<Longrightarrow> componentEids_rd s' cid = componentEids_rd s cid"
  by (simp add: componentEids_rd_def)

lemma allocated_cong:
  "entities s' = entities s \<Longrightarrow> components s' = components s \<Longrightarrow>
   componentEids s' = componentEids s \<Longrightarrow> allocated cfg s' = allocated cfg s"
  by (simp add: allocated_def)

lemma dense_ok_cong:
  "components s' = components s \<Longrightarrow> componentEids s' = componentEids s \<Longrightarrow>
   dense_ok cfg s' cid = dense_ok cfg s cid"
  by (simp add: dense_ok_def components_rd_cong [of s' s] componentEids_rd_cong [of s' s]
      cong: option.case_cong)

lemma consistent_cong:
  "entities s' = entities s \<Longrightarrow> components s' = components s \<Longrightarrow>
   componentEids s' = componentEids s \<Longrightarrow> consistent cfg s' = consistent cfg s"
  by (simp add: consistent_def allocated_cong [of s' s] dense_ok_cong [of s' s])

lemma consistent_allocated: "consistent cfg s \<Longrightarrow> allocated cfg s"
  by (simp add: consistent_def)

subsection \<open>Detaching and attaching\<close>

text \<open>Where \<^verbatim>\<open>removeComponent\<close> returns at one of its two early exits.\<close>

lemma removeComponent_noop:
  assumes "kMaxEntities cfg \<le> eid \<or> entities_rd s eid = Some False \<or>
           (entities_rd s eid = Some True \<and> numCids cfg \<le> cid) \<or>
           (entities_rd s eid = Some True \<and> components_rd s cid eid = Some None)"
  shows "removeComponent cfg cid eid s = Some s"
  using assms by (auto simp: removeComponent_def)

text \<open>Where it detaches the component.\<close>

lemma removeComponent_removes:
  assumes al: "allocated cfg s" and eid: "eid < kMaxEntities cfg" and cid: "cid < numCids cfg"
    and live: "entities_rd s eid = Some True"
    and slot: "components_rd s cid eid = Some (Some p)"
    and eids: "componentEids_rd s cid = Some l"
  shows "\<exists>s'. removeComponent cfg cid eid s = Some s' \<and> allocated cfg s' \<and>
     entities s' = entities s \<and> deleted s' = deleted s @ [p] \<and> logged s' = logged s \<and>
     (\<forall>c e. components_rd s' c e =
        (if c = cid \<and> e = eid then Some None else components_rd s c e)) \<and>
     (\<forall>c. componentEids_rd s' c =
        (if c = cid then Some (remove1 eid l) else componentEids_rd s c))"
proof -
  let ?s0 = "s\<lparr>deleted := deleted s @ [p]\<rparr>"
  have al0: "allocated cfg ?s0"
    using al by (simp add: allocated_def)
  from components_wr_allocated [OF al0 cid eid, of None]
  obtain s1 where s1: "components_wr cid eid None ?s0 = Some s1" "allocated cfg s1"
    "entities s1 = entities ?s0" "componentEids s1 = componentEids ?s0"
    "deleted s1 = deleted ?s0" "logged s1 = logged ?s0"
    "\<forall>c' e. components_rd s1 c' e =
        (if c' = cid \<and> e = eid then Some None else components_rd ?s0 c' e)"
    by blast
  have l1: "componentEids_rd s1 cid = Some l"
    using eids s1(4) by (simp add: componentEids_rd_def)
  from componentEids_wr_allocated [OF s1(2) cid, of "remove1 eid l"]
  obtain s2 where s2: "componentEids_wr cid (remove1 eid l) s1 = Some s2" "allocated cfg s2"
    "entities s2 = entities s1" "components s2 = components s1"
    "deleted s2 = deleted s1" "logged s2 = logged s1"
    "\<forall>c'. componentEids_rd s2 c' =
        (if c' = cid then Some (remove1 eid l) else componentEids_rd s1 c')"
    by blast
  have run: "removeComponent cfg cid eid s = Some s2"
    using eid cid live slot s1(1) l1 s2(1) by (simp add: removeComponent_def)
  have c: "\<forall>c e. components_rd s2 c e =
        (if c = cid \<and> e = eid then Some None else components_rd s c e)"
    using s1(7) s2(4) by (simp add: components_rd_def)
  have e: "\<forall>c. componentEids_rd s2 c =
        (if c = cid then Some (remove1 eid l) else componentEids_rd s c)"
    using s2(7) s1(4) by (simp add: componentEids_rd_def)
  show ?thesis
    using run s2(2,3,5,6) s1(3,5,6) c e by simp
qed

text \<open>On an allocated state \<^verbatim>\<open>removeComponent\<close> always returns, by one of the two.\<close>

lemma removeComponent_cases:
  assumes al: "allocated cfg s"
  obtains (noop) "removeComponent cfg cid eid s = Some s"
      "\<not> (eid < kMaxEntities cfg \<and> cid < numCids cfg \<and> entities_rd s eid = Some True \<and>
          (\<exists>p. components_rd s cid eid = Some (Some p)))"
    | (removed) p l s' where "eid < kMaxEntities cfg" "cid < numCids cfg"
      "entities_rd s eid = Some True" "components_rd s cid eid = Some (Some p)"
      "componentEids_rd s cid = Some l"
      "removeComponent cfg cid eid s = Some s'" "allocated cfg s'"
      "entities s' = entities s" "deleted s' = deleted s @ [p]" "logged s' = logged s"
      "\<forall>c e. components_rd s' c e =
         (if c = cid \<and> e = eid then Some None else components_rd s c e)"
      "\<forall>c. componentEids_rd s' c =
         (if c = cid then Some (remove1 eid l) else componentEids_rd s c)"
proof (cases "eid < kMaxEntities cfg \<and> cid < numCids cfg \<and> entities_rd s eid = Some True \<and>
          (\<exists>p. components_rd s cid eid = Some (Some p))")
  case True
  then obtain p where p: "components_rd s cid eid = Some (Some p)" by blast
  from componentEids_rd_allocated [OF al, of cid] True
  obtain l where l: "componentEids_rd s cid = Some l" by blast
  from removeComponent_removes [OF al _ _ _ p l] True
  obtain s' where "removeComponent cfg cid eid s = Some s'" "allocated cfg s'"
      "entities s' = entities s" "deleted s' = deleted s @ [p]" "logged s' = logged s"
      "\<forall>c e. components_rd s' c e =
         (if c = cid \<and> e = eid then Some None else components_rd s c e)"
      "\<forall>c. componentEids_rd s' c =
         (if c = cid then Some (remove1 eid l) else componentEids_rd s c)"
    by blast
  with True p l show ?thesis by (intro removed [of p l s']) auto
next
  case False
  have "removeComponent cfg cid eid s = Some s"
  proof (cases "eid < kMaxEntities cfg")
    case e: True
    from entities_rd_allocated [OF al e] obtain b where b: "entities_rd s eid = Some b" by blast
    show ?thesis
    proof (cases "b \<and> cid < numCids cfg")
      case True
      with components_rd_allocated [OF al _ e, of cid]
      obtain q where q: "components_rd s cid eid = Some q" by blast
      with False e True b have "q = None" by (cases q) auto
      with q b True show ?thesis by (intro removeComponent_noop) simp
    next
      case False
      with b show ?thesis by (intro removeComponent_noop) (cases b; auto)
    qed
  next
    case False
    then show ?thesis by (intro removeComponent_noop) simp
  qed
  from this False show ?thesis by (rule noop)
qed

lemma removeComponent_allocated:
  assumes "allocated cfg s" "removeComponent cfg cid eid s = Some s'"
  shows "allocated cfg s'" "entities s' = entities s" "logged s' = logged s"
  using assms(1)
  by (cases rule: removeComponent_cases [where cid = cid and eid = eid];
      use assms in simp)+

lemma removeComponent_total:
  assumes "allocated cfg s"
  shows "\<exists>s'. removeComponent cfg cid eid s = Some s'"
  using assms by (cases rule: removeComponent_cases [where cid = cid and eid = eid]) auto

text \<open>The example state \<open>ex1\<close> is reached by calls, and is consistent.\<close>

lemma ex1_run: "run cfg0 [Create, Create, AddComponent 0 1 (Some 7), AddComponent 0 2 (Some 8),
     AddComponent 1 2 (Some 9)] (alloc cfg0 init) = Some ex1"
  by code_simp

lemma ex1_allocated: "allocated cfg0 ex1"
  by code_simp

lemma ex1_consistent: "consistent cfg0 ex1"
  by code_simp


text \<open>
  The scenario of the specification: two entities, a component of type 0 on each, then
  the first entity destroyed. The results are the identifiers created, \<^verbatim>\<open>getAll(0)\<close> before
  and after \<^verbatim>\<open>destroyNow(1)\<close>, and \<^verbatim>\<open>getComponent(0, 1)\<close> and \<^verbatim>\<open>count(0)\<close> at the end.
\<close>

lemma example_scenario:
  "do {
     (ids, s) \<leftarrow> create_many cfg0 2 init;
     s \<leftarrow> addComponent cfg0 0 1 (Some 7) s;
     s \<leftarrow> addComponent cfg0 0 2 (Some 8) s;
     before \<leftarrow> getAll cfg0 0 s;
     s \<leftarrow> destroyNow cfg0 1 s;
     after \<leftarrow> getAll cfg0 0 s;
     c \<leftarrow> getComponent cfg0 0 1 s;
     n \<leftarrow> count_cid cfg0 0 s;
     Some (ids, before, after, c, n)
   } = Some ([1, 2], [1, 2], [2], None, 1)"
  by code_simp

subsection \<open>Consistency is kept by every call\<close>

text \<open>What consistency says about one dense id-list.\<close>

lemma dense_okD:
  assumes "consistent cfg s" "cid < numCids cfg" "componentEids_rd s cid = Some l"
  shows "distinct l" "\<And>e. e \<in> set l \<Longrightarrow> e < kMaxEntities cfg"
    "\<And>eid. eid < kMaxEntities cfg \<Longrightarrow> (components_rd s cid eid \<noteq> Some None) = (eid \<in> set l)"
proof -
  have "dense_ok cfg s cid"
    using assms(1,2) by (simp add: consistent_def)
  with assms(3) have d: "distinct l \<and> (\<forall>e \<in> set l. e < kMaxEntities cfg) \<and>
      (\<forall>eid \<in> {0..<kMaxEntities cfg}. (components_rd s cid eid \<noteq> Some None) = (eid \<in> set l))"
    by (simp add: dense_ok_def)
  show "distinct l" using d by simp
  show "\<And>e. e \<in> set l \<Longrightarrow> e < kMaxEntities cfg" using d by simp
  show "\<And>eid. eid < kMaxEntities cfg \<Longrightarrow>
      (components_rd s cid eid \<noteq> Some None) = (eid \<in> set l)" using d by simp
qed

lemma consistentI:
  assumes "allocated cfg s"
    and "\<And>cid l. cid < numCids cfg \<Longrightarrow> componentEids_rd s cid = Some l \<Longrightarrow>
      distinct l \<and> (\<forall>e \<in> set l. e < kMaxEntities cfg) \<and>
      (\<forall>eid < kMaxEntities cfg. (components_rd s cid eid \<noteq> Some None) = (eid \<in> set l))"
  shows "consistent cfg s"
  unfolding consistent_def dense_ok_def
proof (intro conjI ballI)
  fix cid assume "cid \<in> {0..<numCids cfg}"
  then have c: "cid < numCids cfg" by simp
  from componentEids_rd_allocated [OF assms(1) c]
  obtain l where l: "componentEids_rd s cid = Some l" by blast
  from assms(2) [OF c l] l
  show "case componentEids_rd s cid of None \<Rightarrow> False
    | Some eids \<Rightarrow> distinct eids \<and> (\<forall>e\<in>set eids. e < kMaxEntities cfg) \<and>
        (\<forall>eid\<in>{0..<kMaxEntities cfg}.
            (components_rd s cid eid \<noteq> Some None) = (eid \<in> set eids))"
    by simp
qed (rule assms(1))

lemma consistent_alloc: "consistent cfg (alloc cfg init)"
  by (rule consistentI [OF allocated_alloc])
    (auto simp: alloc_def init_def componentEids_rd_def components_rd_def)

lemma removeComponent_consistent:
  assumes "consistent cfg s" "removeComponent cfg cid eid s = Some s'"
  shows "consistent cfg s'"
proof -
  have al: "allocated cfg s" using assms(1) by (rule consistent_allocated)
  from al show ?thesis
  proof (cases rule: removeComponent_cases [where cid = cid and eid = eid])
    case noop
    with assms show ?thesis by simp
  next
    case (removed p l s'')
    then have eq: "s'' = s'" using assms(2) by simp
    note r = removed [unfolded eq]
    show ?thesis
    proof (rule consistentI [OF r(7)])
      fix c l' assume c: "c < numCids cfg" and l': "componentEids_rd s' c = Some l'"
      show "distinct l' \<and> (\<forall>e \<in> set l'. e < kMaxEntities cfg) \<and>
        (\<forall>e < kMaxEntities cfg. (components_rd s' c e \<noteq> Some None) = (e \<in> set l'))"
      proof (cases "c = cid")
        case True
        with l' r(12) have l'eq: "l' = remove1 eid l" by simp
        note d = dense_okD [OF assms(1) r(2) r(5)]
        have "\<forall>e < kMaxEntities cfg. (components_rd s' c e \<noteq> Some None) = (e \<in> set l')"
          using True r(11) d(1) d(3) l'eq by auto
        with d l'eq show ?thesis by (auto dest: notin_set_remove1)
      next
        case False
        with l' r(12) have "componentEids_rd s c = Some l'" by simp
        from dense_okD [OF assms(1) c this] False r(11) show ?thesis by auto
      qed
    qed
  qed
qed

text \<open>
  \<^verbatim>\<open>addComponent\<close> on an accepted call (non-null component, live in-range entity,
  in-range type): the state \<open>s1\<close> is the one after the removal of the old component, if
  there was one.
\<close>

lemma addComponent_rejected:
  assumes "c = None \<or> kMaxEntities cfg \<le> eid \<or> entities_rd s eid = Some False \<or>
           (entities_rd s eid = Some True \<and> numCids cfg \<le> cid)"
  shows "addComponent cfg cid eid c s = Some s"
  using assms by (auto simp: addComponent_def split: option.splits)

lemma addComponent_installs:
  assumes al: "allocated cfg s" and eid: "eid < kMaxEntities cfg" and cid: "cid < numCids cfg"
    and live: "entities_rd s eid = Some True"
    and s1: "(if components_rd s cid eid \<noteq> Some None then removeComponent cfg cid eid s
              else Some s) = Some s1"
    and l1: "componentEids_rd s1 cid = Some l1"
  shows "\<exists>s'. addComponent cfg cid eid (Some p) s = Some s' \<and> allocated cfg s' \<and>
     entities s' = entities s1 \<and> deleted s' = deleted s1 \<and> logged s' = logged s1 \<and>
     (\<forall>c e. components_rd s' c e =
        (if c = cid \<and> e = eid then Some (Some p) else components_rd s1 c e)) \<and>
     (\<forall>c. componentEids_rd s' c =
        (if c = cid then Some (l1 @ [eid]) else componentEids_rd s1 c))"
proof -
  from components_rd_allocated [OF al cid eid]
  obtain old where old: "components_rd s cid eid = Some old" by blast
  have al1: "allocated cfg s1"
    using al s1 removeComponent_allocated(1) [OF al, of cid eid s1]
    by (auto split: if_splits)
  from components_wr_allocated [OF al1 cid eid, of "Some p"]
  obtain s2 where s2: "components_wr cid eid (Some p) s1 = Some s2" "allocated cfg s2"
    "entities s2 = entities s1" "componentEids s2 = componentEids s1"
    "deleted s2 = deleted s1" "logged s2 = logged s1"
    "\<forall>c' e. components_rd s2 c' e =
        (if c' = cid \<and> e = eid then Some (Some p) else components_rd s1 c' e)"
    by blast
  have l2: "componentEids_rd s2 cid = Some l1"
    using l1 s2(4) by (simp add: componentEids_rd_def)
  from componentEids_wr_allocated [OF s2(2) cid, of "l1 @ [eid]"]
  obtain s3 where s3: "componentEids_wr cid (l1 @ [eid]) s2 = Some s3" "allocated cfg s3"
    "entities s3 = entities s2" "components s3 = components s2"
    "deleted s3 = deleted s2" "logged s3 = logged s2"
    "\<forall>c'. componentEids_rd s3 c' =
        (if c' = cid then Some (l1 @ [eid]) else componentEids_rd s2 c')"
    by blast
  have s1': "(if old \<noteq> None then removeComponent cfg cid eid s else Some s) = Some s1"
    using s1 old by (cases old) auto
  have run: "addComponent cfg cid eid (Some p) s = Some s3"
    using eid cid live old s1' s2(1) l2 s3(1) by (simp add: addComponent_def)
  have c: "\<forall>c e. components_rd s3 c e =
        (if c = cid \<and> e = eid then Some (Some p) else components_rd s1 c e)"
    using s2(7) s3(4) by (simp add: components_rd_def)
  have e: "\<forall>c. componentEids_rd s3 c =
        (if c = cid then Some (l1 @ [eid]) else componentEids_rd s1 c)"
    using s3(7) s2(4) by (simp add: componentEids_rd_def)
  show ?thesis
    using run s3(2,3,5,6) s2(3,5,6) c e by simp
qed

text \<open>Lines 140-142 of \<^verbatim>\<open>addComponent\<close>: the slot is empty before the new pointer is stored.\<close>

lemma addComponent_prepares:
  assumes al: "allocated cfg s" and eid: "eid < kMaxEntities cfg" and cid: "cid < numCids cfg"
    and live: "entities_rd s eid = Some True"
  shows "\<exists>s1. (if components_rd s cid eid \<noteq> Some None then removeComponent cfg cid eid s
               else Some s) = Some s1 \<and>
     allocated cfg s1 \<and> entities s1 = entities s \<and> logged s1 = logged s \<and>
     components_rd s1 cid eid = Some None \<and>
     (consistent cfg s \<longrightarrow> consistent cfg s1) \<and>
     (\<forall>c e. \<not> (c = cid \<and> e = eid) \<longrightarrow> components_rd s1 c e = components_rd s c e) \<and>
     (\<forall>c. c \<noteq> cid \<longrightarrow> componentEids_rd s1 c = componentEids_rd s c) \<and>
     componentEids_rd s1 cid = map_option (\<lambda>l. if components_rd s cid eid = Some None then l
        else remove1 eid l) (componentEids_rd s cid) \<and>
     deleted s1 = deleted s @
       (case components_rd s cid eid of Some (Some p) \<Rightarrow> [p] | _ \<Rightarrow> [])"
proof (cases "components_rd s cid eid = Some None")
  case True
  with al show ?thesis by (auto simp: option.map_ident)
next
  case False
  from components_rd_allocated [OF al cid eid] False
  obtain p where p: "components_rd s cid eid = Some (Some p)" by auto
  from al show ?thesis
  proof (cases rule: removeComponent_cases [where cid = cid and eid = eid])
    case noop
    with eid cid live p show ?thesis by simp
  next
    case (removed p' l s')
    with p have "p' = p" by simp
    with removed False p removeComponent_consistent [of cfg s cid eid s']
    show ?thesis by auto
  qed
qed

lemma addComponent_cases:
  assumes al: "allocated cfg s"
  obtains (rejected) "addComponent cfg cid eid c s = Some s"
      "c = None \<or> \<not> eid < kMaxEntities cfg \<or> \<not> cid < numCids cfg \<or>
       entities_rd s eid \<noteq> Some True"
    | (installed) p s1 l1 s' where "c = Some p" "eid < kMaxEntities cfg" "cid < numCids cfg"
      "entities_rd s eid = Some True"
      "(if components_rd s cid eid \<noteq> Some None then removeComponent cfg cid eid s
        else Some s) = Some s1"
      "allocated cfg s1" "components_rd s1 cid eid = Some None"
      "componentEids_rd s1 cid = Some l1"
      "addComponent cfg cid eid c s = Some s'" "allocated cfg s'"
      "entities s' = entities s" "deleted s' = deleted s1" "logged s' = logged s"
      "\<forall>c e. components_rd s' c e =
         (if c = cid \<and> e = eid then Some (Some p) else components_rd s1 c e)"
      "\<forall>c. componentEids_rd s' c =
         (if c = cid then Some (l1 @ [eid]) else componentEids_rd s1 c)"
proof (cases "c = None \<or> \<not> eid < kMaxEntities cfg \<or> \<not> cid < numCids cfg \<or>
       entities_rd s eid \<noteq> Some True")
  case True
  have "addComponent cfg cid eid c s = Some s"
  proof (cases "eid < kMaxEntities cfg")
    case e: True
    from entities_rd_allocated [OF al e] obtain b where b: "entities_rd s eid = Some b" by blast
    with True e show ?thesis by (intro addComponent_rejected) (cases b; auto)
  next
    case False
    then show ?thesis by (intro addComponent_rejected) simp
  qed
  from this True show ?thesis by (rule rejected)
next
  case False
  then obtain p where p: "c = Some p" by auto
  from False have r: "eid < kMaxEntities cfg" "cid < numCids cfg"
    "entities_rd s eid = Some True" by auto
  from addComponent_prepares [OF al r]
  obtain s1 where s1: "(if components_rd s cid eid \<noteq> Some None
      then removeComponent cfg cid eid s else Some s) = Some s1"
    "allocated cfg s1" "entities s1 = entities s" "logged s1 = logged s"
    "components_rd s1 cid eid = Some None"
    by blast
  from componentEids_rd_allocated [OF s1(2) r(2)]
  obtain l1 where l1: "componentEids_rd s1 cid = Some l1" by blast
  from addComponent_installs [OF al r s1(1) l1, of p]
  obtain s' where "addComponent cfg cid eid (Some p) s = Some s'" "allocated cfg s'"
     "entities s' = entities s1" "deleted s' = deleted s1" "logged s' = logged s1"
     "\<forall>c e. components_rd s' c e =
        (if c = cid \<and> e = eid then Some (Some p) else components_rd s1 c e)"
     "\<forall>c. componentEids_rd s' c =
        (if c = cid then Some (l1 @ [eid]) else componentEids_rd s1 c)"
    by blast
  with p r s1 l1 show ?thesis by (intro installed [of p s1 l1 s']) auto
qed

lemma addComponent_allocated:
  assumes "allocated cfg s" "addComponent cfg cid eid c s = Some s'"
  shows "allocated cfg s'" "entities s' = entities s" "logged s' = logged s"
  using assms(1)
  by (cases rule: addComponent_cases [where cid = cid and eid = eid and c = c];
      use assms in simp)+

lemma addComponent_total:
  assumes "allocated cfg s"
  shows "\<exists>s'. addComponent cfg cid eid c s = Some s'"
  using assms
  by (cases rule: addComponent_cases [where cid = cid and eid = eid and c = c]) auto

lemma addComponent_consistent:
  assumes co: "consistent cfg s" and run: "addComponent cfg cid eid c s = Some s'"
  shows "consistent cfg s'"
proof -
  have al: "allocated cfg s" using co by (rule consistent_allocated)
  from al show ?thesis
  proof (cases rule: addComponent_cases [where cid = cid and eid = eid and c = c])
    case rejected
    with co run show ?thesis by simp
  next
    case (installed p s1 l1 s'')
    then have eq: "s'' = s'" using run by simp
    note r = installed [unfolded eq]
    from addComponent_prepares [OF al r(2,3,4)] r(5) co
    have co1: "consistent cfg s1" by auto
    note d = dense_okD [OF co1 r(3) r(8)]
    have notin: "eid \<notin> set l1"
      using d(3) [OF r(2)] r(7) by simp
    show ?thesis
    proof (rule consistentI [OF r(10)])
      fix c' l' assume c': "c' < numCids cfg" and l': "componentEids_rd s' c' = Some l'"
      show "distinct l' \<and> (\<forall>e \<in> set l'. e < kMaxEntities cfg) \<and>
        (\<forall>e < kMaxEntities cfg. (components_rd s' c' e \<noteq> Some None) = (e \<in> set l'))"
      proof (cases "c' = cid")
        case True
        with l' r(15) have l'eq: "l' = l1 @ [eid]" by simp
        have "\<forall>e < kMaxEntities cfg. (components_rd s' c' e \<noteq> Some None) = (e \<in> set l')"
          using True r(14) d(3) l'eq by auto
        with d notin l'eq r(2) show ?thesis by auto
      next
        case False
        with l' r(15) have "componentEids_rd s1 c' = Some l'" by simp
        from dense_okD [OF co1 c' this] False r(14) show ?thesis by auto
      qed
    qed
  qed
qed

text \<open>\<^verbatim>\<open>removeComponent\<close> on an allocated state, in one statement.\<close>

lemma removeComponent_spec:
  assumes al: "allocated cfg s"
  shows "\<exists>s'. removeComponent cfg cid eid s = Some s' \<and> allocated cfg s' \<and>
     entities s' = entities s \<and> logged s' = logged s \<and>
     (\<forall>c e. \<not> (c = cid \<and> e = eid) \<longrightarrow> components_rd s' c e = components_rd s c e) \<and>
     (eid < kMaxEntities cfg \<and> cid < numCids cfg \<and> entities_rd s eid = Some True \<longrightarrow>
        components_rd s' cid eid = Some None) \<and>
     (\<not> (eid < kMaxEntities cfg \<and> cid < numCids cfg \<and> entities_rd s eid = Some True) \<longrightarrow>
        s' = s) \<and>
     (\<exists>ds. deleted s' = deleted s @ ds) \<and>
     (\<forall>p. eid < kMaxEntities cfg \<and> cid < numCids cfg \<and> entities_rd s eid = Some True \<and>
        components_rd s cid eid = Some (Some p) \<longrightarrow> p \<in> set (deleted s')) \<and>
     (consistent cfg s \<longrightarrow> consistent cfg s')"
  using al
proof (cases rule: removeComponent_cases [where cid = cid and eid = eid])
  case noop
  have "eid < kMaxEntities cfg \<and> cid < numCids cfg \<and> entities_rd s eid = Some True \<longrightarrow>
        components_rd s cid eid = Some None"
    using noop(2) components_rd_allocated [OF al, of cid eid] by auto
  with noop al show ?thesis by auto
next
  case (removed p l s')
  with removeComponent_consistent [of cfg s cid eid s'] show ?thesis by auto
qed

subsection \<open>Destroying one entity\<close>

text \<open>The loop of \<^verbatim>\<open>destroyNow\<close>, started at any component type \<open>cid\<close>.\<close>

lemma destroyNow_loop_spec:
  "allocated cfg s \<Longrightarrow>
   \<exists>s'. destroyNow_loop cfg eid cid s = Some s' \<and> allocated cfg s' \<and>
     entities s' = entities s \<and> logged s' = logged s \<and>
     (\<forall>c e. e \<noteq> eid \<or> c < cid \<longrightarrow> components_rd s' c e = components_rd s c e) \<and>
     (eid < kMaxEntities cfg \<and> entities_rd s eid = Some True \<longrightarrow>
        (\<forall>c. cid \<le> c \<and> c < numCids cfg \<longrightarrow> components_rd s' c eid = Some None)) \<and>
     (\<not> (eid < kMaxEntities cfg \<and> entities_rd s eid = Some True) \<longrightarrow> s' = s) \<and>
     (\<exists>ds. deleted s' = deleted s @ ds) \<and>
     (\<forall>c p. eid < kMaxEntities cfg \<and> entities_rd s eid = Some True \<and> cid \<le> c \<and>
        c < numCids cfg \<and> components_rd s c eid = Some (Some p) \<longrightarrow> p \<in> set (deleted s')) \<and>
     (consistent cfg s \<longrightarrow> consistent cfg s')"
proof (induction cfg eid cid s rule: destroyNow_loop.induct)
  case (1 cfg eid cid s)
  show ?case
  proof (cases "cid < numCids cfg")
    case False
    with "1.prems" show ?thesis
      by (subst destroyNow_loop.simps) auto
  next
    case True
    from removeComponent_spec [OF "1.prems", of cid eid]
    obtain s1 where s1: "removeComponent cfg cid eid s = Some s1" "allocated cfg s1"
      "entities s1 = entities s" "logged s1 = logged s"
      "\<forall>c e. \<not> (c = cid \<and> e = eid) \<longrightarrow> components_rd s1 c e = components_rd s c e"
      "eid < kMaxEntities cfg \<and> cid < numCids cfg \<and> entities_rd s eid = Some True \<longrightarrow>
        components_rd s1 cid eid = Some None"
      "\<not> (eid < kMaxEntities cfg \<and> cid < numCids cfg \<and> entities_rd s eid = Some True) \<longrightarrow>
        s1 = s"
      "\<exists>ds. deleted s1 = deleted s @ ds"
      "\<forall>p. eid < kMaxEntities cfg \<and> cid < numCids cfg \<and> entities_rd s eid = Some True \<and>
        components_rd s cid eid = Some (Some p) \<longrightarrow> p \<in> set (deleted s1)"
      "consistent cfg s \<longrightarrow> consistent cfg s1"
      by blast
    from "1.IH" [OF True s1(1) s1(2)]
    obtain s' where s': "destroyNow_loop cfg eid (Suc cid) s1 = Some s'" "allocated cfg s'"
      "entities s' = entities s1" "logged s' = logged s1"
      "\<forall>c e. e \<noteq> eid \<or> c < Suc cid \<longrightarrow> components_rd s' c e = components_rd s1 c e"
      "eid < kMaxEntities cfg \<and> entities_rd s1 eid = Some True \<longrightarrow>
        (\<forall>c. Suc cid \<le> c \<and> c < numCids cfg \<longrightarrow> components_rd s' c eid = Some None)"
      "\<not> (eid < kMaxEntities cfg \<and> entities_rd s1 eid = Some True) \<longrightarrow> s' = s1"
      "\<exists>ds. deleted s' = deleted s1 @ ds"
      "\<forall>c p. eid < kMaxEntities cfg \<and> entities_rd s1 eid = Some True \<and> Suc cid \<le> c \<and>
        c < numCids cfg \<and> components_rd s1 c eid = Some (Some p) \<longrightarrow> p \<in> set (deleted s')"
      "consistent cfg s1 \<longrightarrow> consistent cfg s'"
      by blast
    have live: "entities_rd s1 eid = entities_rd s eid"
      using s1(3) by (rule entities_rd_cong)
    have run: "destroyNow_loop cfg eid cid s = Some s'"
      using True s1(1) s'(1) by (subst destroyNow_loop.simps) simp
    have frame: "\<forall>c e. e \<noteq> eid \<or> c < cid \<longrightarrow> components_rd s' c e = components_rd s c e"
      using s1(5) s'(5) by auto
    have empty: "eid < kMaxEntities cfg \<and> entities_rd s eid = Some True \<longrightarrow>
        (\<forall>c. cid \<le> c \<and> c < numCids cfg \<longrightarrow> components_rd s' c eid = Some None)"
    proof (intro impI allI)
      fix c assume a: "eid < kMaxEntities cfg \<and> entities_rd s eid = Some True"
        and c: "cid \<le> c \<and> c < numCids cfg"
      show "components_rd s' c eid = Some None"
      proof (cases "c = cid")
        case True
        with a c s1(6) s'(5) show ?thesis by simp
      next
        case False
        with a c s'(6) live show ?thesis by simp
      qed
    qed
    have same: "\<not> (eid < kMaxEntities cfg \<and> entities_rd s eid = Some True) \<longrightarrow> s' = s"
      using s1(7) s'(7) live by auto
    have del: "\<exists>ds. deleted s' = deleted s @ ds"
      using s1(8) s'(8) by auto
    have mem: "\<forall>c p. eid < kMaxEntities cfg \<and> entities_rd s eid = Some True \<and> cid \<le> c \<and>
        c < numCids cfg \<and> components_rd s c eid = Some (Some p) \<longrightarrow> p \<in> set (deleted s')"
    proof (intro impI allI)
      fix c p assume a: "eid < kMaxEntities cfg \<and> entities_rd s eid = Some True \<and> cid \<le> c \<and>
        c < numCids cfg \<and> components_rd s c eid = Some (Some p)"
      show "p \<in> set (deleted s')"
      proof (cases "c = cid")
        case True
        with a s1(9) have "p \<in> set (deleted s1)" by simp
        with s'(8) show ?thesis by auto
      next
        case False
        with a s1(5) have "components_rd s1 c eid = Some (Some p)" by simp
        moreover from a False have "Suc cid \<le> c" by simp
        ultimately show ?thesis using a s'(9) live by auto
      qed
    qed
    from run s'(2) s'(3) s1(3) s'(4) s1(4) frame empty same del mem s1(10) s'(10)
    show ?thesis by simp
  qed
qed

text \<open>Writing the flag that is already there changes nothing.\<close>

lemma entities_wr_same:
  assumes "entities_rd s eid = Some b"
  shows "entities_wr eid b s = Some s"
proof -
  from assms obtain es where es: "entities s = Some es" "eid < length es" "es ! eid = b"
    by (auto simp: entities_rd_def split: option.splits if_splits)
  then have "es[eid := b] = es" by (simp add: list_update_same_conv)
  with es show ?thesis by (simp add: entities_wr_def)
qed

text \<open>\<^verbatim>\<open>destroyNow\<close> on an allocated state and an in-range identifier.\<close>

lemma destroyNow_spec:
  assumes al: "allocated cfg s" and eid: "eid < kMaxEntities cfg"
  shows "\<exists>s'. destroyNow cfg eid s = Some s' \<and> allocated cfg s' \<and> logged s' = logged s \<and>
     (\<forall>e. entities_rd s' e = (if e = eid \<and> eid \<noteq> 0 then Some False else entities_rd s e)) \<and>
     (\<forall>c e. e \<noteq> eid \<longrightarrow> components_rd s' c e = components_rd s c e) \<and>
     (eid \<noteq> 0 \<and> entities_rd s eid = Some True \<longrightarrow>
        (\<forall>c. c < numCids cfg \<longrightarrow> components_rd s' c eid = Some None)) \<and>
     (eid = 0 \<or> entities_rd s eid \<noteq> Some True \<longrightarrow> s' = s) \<and>
     (\<exists>ds. deleted s' = deleted s @ ds) \<and>
     (\<forall>c p. eid \<noteq> 0 \<and> entities_rd s eid = Some True \<and> c < numCids cfg \<and>
        components_rd s c eid = Some (Some p) \<longrightarrow> p \<in> set (deleted s')) \<and>
     (consistent cfg s \<longrightarrow> consistent cfg s')"
proof (cases "eid = 0")
  case True
  with al show ?thesis by (simp add: destroyNow_def)
next
  case False
  from destroyNow_loop_spec [OF al, of eid 0]
  obtain s1 where s1: "destroyNow_loop cfg eid 0 s = Some s1" "allocated cfg s1"
    "entities s1 = entities s" "logged s1 = logged s"
    "\<forall>c e. e \<noteq> eid \<or> c < 0 \<longrightarrow> components_rd s1 c e = components_rd s c e"
    "eid < kMaxEntities cfg \<and> entities_rd s eid = Some True \<longrightarrow>
        (\<forall>c. 0 \<le> c \<and> c < numCids cfg \<longrightarrow> components_rd s1 c eid = Some None)"
    "\<not> (eid < kMaxEntities cfg \<and> entities_rd s eid = Some True) \<longrightarrow> s1 = s"
    "\<exists>ds. deleted s1 = deleted s @ ds"
    "\<forall>c p. eid < kMaxEntities cfg \<and> entities_rd s eid = Some True \<and> 0 \<le> c \<and>
        c < numCids cfg \<and> components_rd s c eid = Some (Some p) \<longrightarrow> p \<in> set (deleted s1)"
    "consistent cfg s \<longrightarrow> consistent cfg s1"
    by (elim exE conjE) (rule that; (assumption | (rule exI, assumption)))
  from entities_wr_allocated [OF s1(2) eid, of False]
  obtain s' where s': "entities_wr eid False s1 = Some s'" "allocated cfg s'"
    "components s' = components s1" "componentEids s' = componentEids s1"
    "deleted s' = deleted s1" "logged s' = logged s1"
    "\<forall>e. entities_rd s' e = (if e = eid then Some False else entities_rd s1 e)"
    by blast
  have run: "destroyNow cfg eid s = Some s'"
    using False s1(1) s'(1) by (simp add: destroyNow_def)
  have ents: "\<forall>e. entities_rd s' e = (if e = eid \<and> eid \<noteq> 0 then Some False else entities_rd s e)"
    using s'(7) False entities_rd_cong [OF s1(3)] by simp
  have comps: "\<forall>c e. components_rd s' c e = components_rd s1 c e"
    using s'(3) by (simp add: components_rd_def)
  have co: "consistent cfg s \<longrightarrow> consistent cfg s'"
  proof
    assume "consistent cfg s"
    with s1(10) have c1: "consistent cfg s1" by simp
    then have "\<forall>cid \<in> {0..<numCids cfg}. dense_ok cfg s1 cid" by (simp add: consistent_def)
    then have "\<forall>cid \<in> {0..<numCids cfg}. dense_ok cfg s' cid"
      using dense_ok_cong [OF s'(3) s'(4)] by simp
    with s'(2) show "consistent cfg s'" by (simp add: consistent_def)
  qed
  have same: "eid = 0 \<or> entities_rd s eid \<noteq> Some True \<longrightarrow> s' = s"
  proof
    assume "eid = 0 \<or> entities_rd s eid \<noteq> Some True"
    with False have nl: "entities_rd s eid \<noteq> Some True" by simp
    with s1(7) have eq: "s1 = s" by simp
    from entities_rd_allocated [OF al eid] nl have "entities_rd s eid = Some False" by auto
    from entities_wr_same [OF this] s'(1) eq show "s' = s" by simp
  qed
  have lg: "logged s' = logged s"
    using s'(6) s1(4) by simp
  have frame: "\<forall>c e. e \<noteq> eid \<longrightarrow> components_rd s' c e = components_rd s c e"
    using comps s1(5) by simp
  have empty: "eid \<noteq> 0 \<and> entities_rd s eid = Some True \<longrightarrow>
        (\<forall>c. c < numCids cfg \<longrightarrow> components_rd s' c eid = Some None)"
    using comps s1(6) eid by simp
  have del: "\<exists>ds. deleted s' = deleted s @ ds"
    using s'(5) s1(8) by simp
  have mem: "\<forall>c p. eid \<noteq> 0 \<and> entities_rd s eid = Some True \<and> c < numCids cfg \<and>
        components_rd s c eid = Some (Some p) \<longrightarrow> p \<in> set (deleted s')"
    using s'(5) s1(9) eid by auto
  show ?thesis
    by (intro exI [of _ s'] conjI run s'(2) lg ents frame empty same del mem co)
qed

text \<open>
  With an identifier outside the presence table, other than 0, line 114 writes outside
  the array: the call has no defined result.
\<close>

lemma destroyNow_out_of_range:
  assumes al: "allocated cfg s" and eid: "kMaxEntities cfg \<le> eid" "eid \<noteq> 0"
  shows "destroyNow cfg eid s = None"
proof -
  from destroyNow_loop_spec [OF al, of eid 0] eid
  have "destroyNow_loop cfg eid 0 s = Some s" by auto
  moreover have "entities_wr eid False s = None"
    using al eid by (auto simp: entities_wr_def allocated_def split: option.splits)
  ultimately show ?thesis using eid by (simp add: destroyNow_def)
qed

text \<open>The scanning loop of \<^verbatim>\<open>create\<close>, started at any identifier \<open>i\<close>.\<close>

lemma create_scan_spec:
  "allocated cfg s \<Longrightarrow>
   \<exists>j. create_scan cfg s i = Some j \<and> i \<le> j \<and>
     (\<forall>k. i \<le> k \<and> k < j \<longrightarrow> entities_rd s k = Some True) \<and>
     (j < kMaxEntities cfg \<longrightarrow> entities_rd s j = Some False) \<and>
     (kMaxEntities cfg \<le> j \<longrightarrow> j = max i (kMaxEntities cfg))"
proof (induction cfg s i rule: create_scan.induct)
  case (1 cfg s eid)
  show ?case
  proof (cases "eid < kMaxEntities cfg")
    case False
    then show ?thesis by (subst create_scan.simps) auto
  next
    case True
    from entities_rd_allocated [OF "1.prems" True]
    obtain b where b: "entities_rd s eid = Some b" by blast
    show ?thesis
    proof (cases b)
      case False
      with True b show ?thesis by (subst create_scan.simps) auto
    next
      case live: True
      from "1.IH" [OF True b live "1.prems"]
      obtain j where j: "create_scan cfg s (Suc eid) = Some j" "Suc eid \<le> j"
        "\<forall>k. Suc eid \<le> k \<and> k < j \<longrightarrow> entities_rd s k = Some True"
        "j < kMaxEntities cfg \<longrightarrow> entities_rd s j = Some False"
        "kMaxEntities cfg \<le> j \<longrightarrow> j = max (Suc eid) (kMaxEntities cfg)"
        by blast
      have run: "create_scan cfg s eid = Some j"
        using True b live j(1) by (subst create_scan.simps) simp
      have "\<forall>k. eid \<le> k \<and> k < j \<longrightarrow> entities_rd s k = Some True"
      proof (intro allI impI)
        fix k assume k: "eid \<le> k \<and> k < j"
        show "entities_rd s k = Some True"
        proof (cases "k = eid")
          case True
          with b live show ?thesis by simp
        next
          case False
          with k j(3) show ?thesis by simp
        qed
      qed
      with run j True show ?thesis by auto
    qed
  qed
qed

subsection \<open>Creating and counting\<close>

lemma alloc_idem: "alloc cfg (alloc cfg s) = alloc cfg s"
  by (simp add: alloc_def)

lemma create_alloc: "create cfg (alloc cfg s) = create cfg s"
  by (simp add: create_def alloc_idem)

text \<open>\<^verbatim>\<open>create\<close> when the scan stops at a free identifier \<open>e\<close>.\<close>

lemma create_scan_free:
  assumes al: "allocated cfg s" and e: "1 \<le> e" "e < kMaxEntities cfg"
    and free: "entities_rd s e = Some False"
    and below: "\<forall>j. 1 \<le> j \<and> j < e \<longrightarrow> entities_rd s j = Some True"
  shows "create_scan cfg s 1 = Some e"
proof -
  from create_scan_spec [OF al, of 1]
  obtain j where j: "create_scan cfg s 1 = Some j" "1 \<le> j"
    "\<forall>k. 1 \<le> k \<and> k < j \<longrightarrow> entities_rd s k = Some True"
    "j < kMaxEntities cfg \<longrightarrow> entities_rd s j = Some False"
    "kMaxEntities cfg \<le> j \<longrightarrow> j = max 1 (kMaxEntities cfg)"
    by (elim exE conjE) (rule that; assumption)
  have "\<not> j < e"
  proof
    assume "j < e"
    with j(2) below e j(4) show False by simp
  qed
  moreover have "\<not> e < j"
  proof
    assume "e < j"
    with j(3) e free show False by simp
  qed
  ultimately have "j = e" by simp
  with j(1) show ?thesis by simp
qed

lemma create_free:
  assumes al: "allocated cfg s" and e: "1 \<le> e" "e < kMaxEntities cfg"
    and free: "entities_rd s e = Some False"
    and below: "\<forall>j. 1 \<le> j \<and> j < e \<longrightarrow> entities_rd s j = Some True"
  shows "\<exists>s'. create cfg s = Some (e, s') \<and> entities_wr e True s = Some s' \<and>
     allocated cfg s' \<and> components s' = components s \<and> componentEids s' = componentEids s \<and>
     deleted s' = deleted s \<and> logged s' = logged s \<and>
     (\<forall>x. entities_rd s' x = (if x = e then Some True else entities_rd s x))"
proof -
  from entities_wr_allocated [OF al e(2), of True]
  obtain s' where s': "entities_wr e True s = Some s'" "allocated cfg s'"
    "components s' = components s" "componentEids s' = componentEids s"
    "deleted s' = deleted s" "logged s' = logged s"
    "\<forall>x. entities_rd s' x = (if x = e then Some True else entities_rd s x)"
    by (elim exE conjE) (rule that; assumption)
  have "create cfg s = Some (e, s')"
    using create_scan_free [OF al e free below] e s'(1) alloc_allocated [OF al]
    by (simp add: create_def)
  with s' show ?thesis by simp
qed

text \<open>\<^verbatim>\<open>create\<close> when every identifier from 1 is live: the scan runs to \<^verbatim>\<open>kMaxEntities\<close>.\<close>

lemma create_full:
  assumes al: "allocated cfg s"
    and full: "\<forall>j. 1 \<le> j \<and> j < kMaxEntities cfg \<longrightarrow> entities_rd s j = Some True"
  shows "create cfg s = Some (max 1 (kMaxEntities cfg),
     s\<lparr>logged := logged s @ [''Maximum number of entities reached!'']\<rparr>)"
proof -
  from create_scan_spec [OF al, of 1]
  obtain j where j: "create_scan cfg s 1 = Some j" "1 \<le> j"
    "\<forall>k. 1 \<le> k \<and> k < j \<longrightarrow> entities_rd s k = Some True"
    "j < kMaxEntities cfg \<longrightarrow> entities_rd s j = Some False"
    "kMaxEntities cfg \<le> j \<longrightarrow> j = max 1 (kMaxEntities cfg)"
    by (elim exE conjE) (rule that; assumption)
  have "\<not> j < kMaxEntities cfg"
  proof
    assume "j < kMaxEntities cfg"
    with j(2) j(4) full show False by simp
  qed
  with j(5) have "j = max 1 (kMaxEntities cfg)" "kMaxEntities cfg \<le> j" by simp_all
  with j(1) alloc_allocated [OF al] show ?thesis
    by (simp add: create_def)
qed

text \<open>On an allocated state \<^verbatim>\<open>create\<close> always returns; it writes the presence table or the log.\<close>

lemma create_spec:
  assumes al: "allocated cfg s"
  shows "\<exists>e s'. create cfg s = Some (e, s') \<and> allocated cfg s' \<and>
     components s' = components s \<and> componentEids s' = componentEids s \<and>
     deleted s' = deleted s \<and> 1 \<le> e \<and>
     (e < kMaxEntities cfg \<longrightarrow> entities_rd s e = Some False) \<and>
     (\<forall>x. entities_rd s x = Some True \<longrightarrow> entities_rd s' x = Some True)"
proof -
  from create_scan_spec [OF al, of 1]
  obtain j where j: "create_scan cfg s 1 = Some j" "1 \<le> j"
    "\<forall>k. 1 \<le> k \<and> k < j \<longrightarrow> entities_rd s k = Some True"
    "j < kMaxEntities cfg \<longrightarrow> entities_rd s j = Some False"
    "kMaxEntities cfg \<le> j \<longrightarrow> j = max 1 (kMaxEntities cfg)"
    by (elim exE conjE) (rule that; assumption)
  show ?thesis
  proof (cases "j < kMaxEntities cfg")
    case True
    from create_free [OF al j(2) True] j(3,4) True
    obtain s' where "create cfg s = Some (j, s')" "allocated cfg s'"
      "components s' = components s" "componentEids s' = componentEids s"
      "deleted s' = deleted s"
      "\<forall>x. entities_rd s' x = (if x = j then Some True else entities_rd s x)"
      by auto
    with j(2,4) show ?thesis by auto
  next
    case False
    let ?s' = "s\<lparr>logged := logged s @ [''Maximum number of entities reached!'']\<rparr>"
    have "create cfg s = Some (j, ?s')"
      using False j(1) alloc_allocated [OF al] by (simp add: create_def)
    moreover have "allocated cfg ?s'"
      using al by (simp add: allocated_def)
    moreover have "\<forall>x. entities_rd ?s' x = entities_rd s x"
      by (simp add: entities_rd_def)
    ultimately show ?thesis using False j(2) by simp
  qed
qed

lemma create_consistent:
  assumes co: "consistent cfg s" and run: "create cfg s = Some (e, s')"
  shows "consistent cfg s'"
proof -
  from create_spec [OF consistent_allocated [OF co]] run
  have s': "allocated cfg s'" "components s' = components s"
    "componentEids s' = componentEids s" by auto
  from co have "\<forall>cid \<in> {0..<numCids cfg}. dense_ok cfg s cid" by (simp add: consistent_def)
  then have "\<forall>cid \<in> {0..<numCids cfg}. dense_ok cfg s' cid"
    using dense_ok_cong [OF s'(2) s'(3)] by simp
  with s'(1) show ?thesis by (simp add: consistent_def)
qed

text \<open>\<^verbatim>\<open>count()\<close> is the number of live identifiers from 1.\<close>

lemma count_loop_spec:
  "allocated cfg s \<Longrightarrow>
   count_loop cfg s i r =
     Some (r + length (filter (\<lambda>e. entities_rd s e = Some True) [i..<kMaxEntities cfg]))"
proof (induction cfg s i r rule: count_loop.induct)
  case (1 cfg s eid ret)
  show ?case
  proof (cases "eid < kMaxEntities cfg")
    case False
    then show ?thesis by (subst count_loop.simps) simp
  next
    case True
    from entities_rd_allocated [OF "1.prems" True]
    obtain b where b: "entities_rd s eid = Some b" by blast
    from "1.IH" [OF True b "1.prems"] True b
    show ?thesis
      by (subst count_loop.simps) (simp add: upt_conv_Cons)
  qed
qed

lemma count_spec:
  "allocated cfg s \<Longrightarrow>
   count cfg s = Some (length (filter (\<lambda>e. entities_rd s e = Some True) [1..<kMaxEntities cfg]))"
  by (simp add: count_def count_loop_spec)

text \<open>
  Repeated \<^verbatim>\<open>create()\<close> never clears a flag, and returns only identifiers above a
  block \<open>[1, e]\<close> of live ones.
\<close>

lemma create_many_spec:
  "allocated cfg s \<Longrightarrow> e < kMaxEntities cfg \<Longrightarrow>
   \<forall>j. 1 \<le> j \<and> j \<le> e \<longrightarrow> entities_rd s j = Some True \<Longrightarrow>
   \<exists>ids s2. create_many cfg n s = Some (ids, s2) \<and> allocated cfg s2 \<and>
     (\<forall>x. entities_rd s x = Some True \<longrightarrow> entities_rd s2 x = Some True) \<and>
     (\<forall>x \<in> set ids. e < x)"
proof (induction n arbitrary: s)
  case 0
  then show ?case by simp
next
  case (Suc n)
  from create_spec [OF Suc.prems(1)]
  obtain x s1 where s1: "create cfg s = Some (x, s1)" "allocated cfg s1" "1 \<le> x"
    "x < kMaxEntities cfg \<longrightarrow> entities_rd s x = Some False"
    "\<forall>y. entities_rd s y = Some True \<longrightarrow> entities_rd s1 y = Some True"
    by blast
  have x: "e < x"
  proof (rule ccontr)
    assume "\<not> e < x"
    with s1(3) Suc.prems(2,3) s1(4) show False by simp
  qed
  have "\<forall>j. 1 \<le> j \<and> j \<le> e \<longrightarrow> entities_rd s1 j = Some True"
    using Suc.prems(3) s1(5) by simp
  from Suc.IH [OF s1(2) Suc.prems(2) this]
  obtain ids s2 where s2: "create_many cfg n s1 = Some (ids, s2)" "allocated cfg s2"
    "\<forall>y. entities_rd s1 y = Some True \<longrightarrow> entities_rd s2 y = Some True"
    "\<forall>y \<in> set ids. e < y"
    by blast
  from s1(1) s2(1) have "create_many cfg (Suc n) s = Some (x # ids, s2)" by simp
  with s2 s1(5) x show ?case by simp
qed

subsection \<open>Destroying all entities, and sequences of calls\<close>

text \<open>The loop of \<^verbatim>\<open>destroyAll\<close>, started at any identifier \<open>i\<close> from 1.\<close>

lemma destroyAll_loop_spec:
  "allocated cfg s \<Longrightarrow> 1 \<le> i \<Longrightarrow>
   \<exists>s'. destroyAll_loop cfg i s = Some s' \<and> allocated cfg s' \<and> logged s' = logged s \<and>
     (\<forall>e. entities_rd s' e =
        (if i \<le> e \<and> e < kMaxEntities cfg then Some False else entities_rd s e)) \<and>
     (\<forall>c e. c < numCids cfg \<and> i \<le> e \<and> e < kMaxEntities cfg \<and>
        entities_rd s e = Some True \<longrightarrow> components_rd s' c e = Some None) \<and>
     (\<forall>c e. \<not> (i \<le> e \<and> e < kMaxEntities cfg \<and> entities_rd s e = Some True) \<longrightarrow>
        components_rd s' c e = components_rd s c e) \<and>
     (\<exists>ds. deleted s' = deleted s @ ds) \<and>
     (\<forall>c e p. c < numCids cfg \<and> i \<le> e \<and> e < kMaxEntities cfg \<and>
        entities_rd s e = Some True \<and> components_rd s c e = Some (Some p) \<longrightarrow>
        p \<in> set (deleted s')) \<and>
     (consistent cfg s \<longrightarrow> consistent cfg s')"
proof (induction cfg i s rule: destroyAll_loop.induct)
  case (1 cfg eid s)
  show ?case
  proof (cases "eid < kMaxEntities cfg")
    case False
    with "1.prems" show ?thesis
      by (subst destroyAll_loop.simps) auto
  next
    case True
    from entities_rd_allocated [OF "1.prems"(1) True]
    obtain b where b: "entities_rd s eid = Some b" by blast
    from "1.prems"(2) have nz: "eid \<noteq> 0" by simp
    from destroyNow_spec [OF "1.prems"(1) True]
    obtain t where t: "destroyNow cfg eid s = Some t" "allocated cfg t" "logged t = logged s"
      "\<forall>e. entities_rd t e = (if e = eid \<and> eid \<noteq> 0 then Some False else entities_rd s e)"
      "\<forall>c e. e \<noteq> eid \<longrightarrow> components_rd t c e = components_rd s c e"
      "eid \<noteq> 0 \<and> entities_rd s eid = Some True \<longrightarrow>
        (\<forall>c. c < numCids cfg \<longrightarrow> components_rd t c eid = Some None)"
      "eid = 0 \<or> entities_rd s eid \<noteq> Some True \<longrightarrow> t = s"
      "\<exists>ds. deleted t = deleted s @ ds"
      "\<forall>c p. eid \<noteq> 0 \<and> entities_rd s eid = Some True \<and> c < numCids cfg \<and>
        components_rd s c eid = Some (Some p) \<longrightarrow> p \<in> set (deleted t)"
      "consistent cfg s \<longrightarrow> consistent cfg t"
      by (elim exE conjE) (rule that; (assumption | (rule exI, assumption)))
    have step: "(if b then destroyNow cfg eid s else Some s) = Some t"
      using t(1) t(7) b by (cases b) auto
    have "1 \<le> Suc eid" by simp
    from "1.IH" [OF True b step t(2) this]
    obtain s' where s': "destroyAll_loop cfg (Suc eid) t = Some s'" "allocated cfg s'"
      "logged s' = logged t"
      "\<forall>e. entities_rd s' e =
        (if Suc eid \<le> e \<and> e < kMaxEntities cfg then Some False else entities_rd t e)"
      "\<forall>c e. c < numCids cfg \<and> Suc eid \<le> e \<and> e < kMaxEntities cfg \<and>
        entities_rd t e = Some True \<longrightarrow> components_rd s' c e = Some None"
      "\<forall>c e. \<not> (Suc eid \<le> e \<and> e < kMaxEntities cfg \<and> entities_rd t e = Some True) \<longrightarrow>
        components_rd s' c e = components_rd t c e"
      "\<exists>ds. deleted s' = deleted t @ ds"
      "\<forall>c e p. c < numCids cfg \<and> Suc eid \<le> e \<and> e < kMaxEntities cfg \<and>
        entities_rd t e = Some True \<and> components_rd t c e = Some (Some p) \<longrightarrow>
        p \<in> set (deleted s')"
      "consistent cfg t \<longrightarrow> consistent cfg s'"
      by (elim exE conjE) (rule that; (assumption | (rule exI, assumption)))
    have run: "destroyAll_loop cfg eid s = Some s'"
      using True b step s'(1) by (subst destroyAll_loop.simps) simp
    have lg: "logged s' = logged s"
      using s'(3) t(3) by simp
    have later: "\<And>e. Suc eid \<le> e \<Longrightarrow> entities_rd t e = entities_rd s e"
      using t(4) by simp
    have here: "entities_rd t eid = Some False"
      using t(4) nz b t(7) by (cases b) auto
    have ents: "\<forall>e. entities_rd s' e =
        (if eid \<le> e \<and> e < kMaxEntities cfg then Some False else entities_rd s e)"
    proof
      fix e
      show "entities_rd s' e =
        (if eid \<le> e \<and> e < kMaxEntities cfg then Some False else entities_rd s e)"
      proof (cases "e = eid")
        case True
        with s'(4) here \<open>eid < kMaxEntities cfg\<close> show ?thesis by simp
      next
        case False
        with s'(4) t(4) show ?thesis by auto
      qed
    qed
    have empty: "\<forall>c e. c < numCids cfg \<and> eid \<le> e \<and> e < kMaxEntities cfg \<and>
        entities_rd s e = Some True \<longrightarrow> components_rd s' c e = Some None"
    proof (intro allI impI)
      fix c e assume a: "c < numCids cfg \<and> eid \<le> e \<and> e < kMaxEntities cfg \<and>
        entities_rd s e = Some True"
      show "components_rd s' c e = Some None"
      proof (cases "e = eid")
        case True
        with a t(6) nz have "components_rd t c eid = Some None" by simp
        moreover from s'(6) have "components_rd s' c eid = components_rd t c eid" by simp
        ultimately show ?thesis using True by simp
      next
        case False
        with a have "Suc eid \<le> e" by simp
        with a later s'(5) show ?thesis by simp
      qed
    qed
    have frame: "\<forall>c e. \<not> (eid \<le> e \<and> e < kMaxEntities cfg \<and> entities_rd s e = Some True) \<longrightarrow>
        components_rd s' c e = components_rd s c e"
    proof (intro allI impI)
      fix c e assume a: "\<not> (eid \<le> e \<and> e < kMaxEntities cfg \<and> entities_rd s e = Some True)"
      show "components_rd s' c e = components_rd s c e"
      proof (cases "e = eid")
        case True
        with a \<open>eid < kMaxEntities cfg\<close> have "entities_rd s eid \<noteq> Some True" by simp
        with t(7) have "t = s" by simp
        with s'(6) True show ?thesis by simp
      next
        case False
        have "\<not> (Suc eid \<le> e \<and> e < kMaxEntities cfg \<and> entities_rd t e = Some True)"
          using a later by auto
        with s'(6) have "components_rd s' c e = components_rd t c e" by simp
        with t(5) False show ?thesis by simp
      qed
    qed
    have del: "\<exists>ds. deleted s' = deleted s @ ds"
      using s'(7) t(8) by auto
    have mem: "\<forall>c e p. c < numCids cfg \<and> eid \<le> e \<and> e < kMaxEntities cfg \<and>
        entities_rd s e = Some True \<and> components_rd s c e = Some (Some p) \<longrightarrow>
        p \<in> set (deleted s')"
    proof (intro allI impI)
      fix c e p assume a: "c < numCids cfg \<and> eid \<le> e \<and> e < kMaxEntities cfg \<and>
        entities_rd s e = Some True \<and> components_rd s c e = Some (Some p)"
      show "p \<in> set (deleted s')"
      proof (cases "e = eid")
        case True
        with a t(9) nz have "p \<in> set (deleted t)" by blast
        with s'(7) show ?thesis by auto
      next
        case False
        with a have "Suc eid \<le> e" by simp
        moreover from this a later have "entities_rd t e = Some True" by simp
        moreover from False a t(5) have "components_rd t c e = Some (Some p)" by simp
        ultimately show ?thesis using a s'(8) by blast
      qed
    qed
    have co: "consistent cfg s \<longrightarrow> consistent cfg s'"
      using t(10) s'(9) by simp
    show ?thesis
      by (intro exI [of _ s'] conjI run s'(2) lg ents empty frame del mem co)
  qed
qed

lemma destroyAll_consistent:
  assumes "consistent cfg s" "destroyAll cfg s = Some s'"
  shows "consistent cfg s'"
  using destroyAll_loop_spec [OF consistent_allocated [OF assms(1)], of 1] assms
  by (auto simp: destroyAll_def)

lemma destroyNow_consistent:
  assumes co: "consistent cfg s" and run: "destroyNow cfg eid s = Some s'"
  shows "consistent cfg s'"
proof (cases "eid < kMaxEntities cfg")
  case True
  from destroyNow_spec [OF consistent_allocated [OF co] True] co run
  show ?thesis by auto
next
  case False
  show ?thesis
  proof (cases "eid = 0")
    case True
    with co run show ?thesis by (simp add: destroyNow_def)
  next
    case nz: False
    from destroyNow_out_of_range [OF consistent_allocated [OF co] _ nz] False run
    show ?thesis by simp
  qed
qed

text \<open>Every call keeps a consistent state consistent, and so does every sequence of calls.\<close>

lemma step_consistent:
  assumes "consistent cfg s" "step cfg c s = Some s'"
  shows "consistent cfg s'"
proof (cases c)
  case Create
  with assms(2) obtain e where "create cfg s = Some (e, s')" by auto
  with assms(1) show ?thesis by (rule create_consistent)
next
  case (DestroyNow eid)
  with assms show ?thesis by (auto intro: destroyNow_consistent)
next
  case DestroyAll
  with assms show ?thesis by (auto intro: destroyAll_consistent)
next
  case (AddComponent cid eid p)
  with assms show ?thesis by (auto intro: addComponent_consistent)
next
  case (RemoveComponent cid eid)
  with assms show ?thesis by (auto intro: removeComponent_consistent)
qed

lemma run_consistent:
  "consistent cfg s \<Longrightarrow> run cfg cs s = Some s' \<Longrightarrow> consistent cfg s'"
proof (induction cs arbitrary: s)
  case Nil
  then show ?case by simp
next
  case (Cons c cs)
  from Cons.prems(2) obtain s1 where s1: "step cfg c s = Some s1" "run cfg cs s1 = Some s'"
    by (auto split: option.splits)
  from step_consistent [OF Cons.prems(1) s1(1)] have "consistent cfg s1" .
  from Cons.IH [OF this s1(2)] show ?case .
qed

lemma count_list_distinct:
  "distinct xs \<Longrightarrow> count_list xs x = (if x \<in> set xs then 1 else 0)"
  by (induction xs) auto

text \<open>
  On an allocated state a call has a defined result exactly when it is a
  \<open>defined_call\<close>, and the result is allocated again.
\<close>

lemma step_defined:
  assumes al: "allocated cfg s" and ok: "defined_call cfg c"
  shows "\<exists>s'. step cfg c s = Some s' \<and> allocated cfg s'"
proof (cases c)
  case Create
  from create_spec [OF al] Create show ?thesis by auto
next
  case (DestroyNow eid)
  show ?thesis
  proof (cases "eid < kMaxEntities cfg")
    case True
    from destroyNow_spec [OF al True] DestroyNow show ?thesis by auto
  next
    case False
    with ok DestroyNow have "eid = 0" by simp
    with al DestroyNow show ?thesis by (simp add: destroyNow_def)
  qed
next
  case DestroyAll
  from destroyAll_loop_spec [OF al order_refl] DestroyAll show ?thesis
    by (auto simp: destroyAll_def)
next
  case (AddComponent cid eid p)
  from addComponent_total [OF al, of cid eid p]
  obtain s' where "addComponent cfg cid eid p s = Some s'" by blast
  with addComponent_allocated(1) [OF al this] AddComponent show ?thesis by simp
next
  case (RemoveComponent cid eid)
  from removeComponent_total [OF al, of cid eid]
  obtain s' where "removeComponent cfg cid eid s = Some s'" by blast
  with removeComponent_allocated(1) [OF al this] RemoveComponent show ?thesis by simp
qed

lemma step_undefined:
  assumes "allocated cfg s" "\<not> defined_call cfg c"
  shows "step cfg c s = None"
  using assms by (cases c) (auto intro: destroyNow_out_of_range)

lemma run_defined:
  "allocated cfg s \<Longrightarrow> list_all (defined_call cfg) cs \<Longrightarrow> \<exists>s'. run cfg cs s = Some s'"
proof (induction cs arbitrary: s)
  case Nil
  then show ?case by simp
next
  case (Cons c cs)
  from Cons.prems(2) have ok: "defined_call cfg c" "list_all (defined_call cfg) cs"
    by simp_all
  from step_defined [OF Cons.prems(1) ok(1)]
  obtain s1 where s1: "step cfg c s = Some s1" "allocated cfg s1" by blast
  from Cons.IH [OF s1(2) ok(2)] s1(1) show ?case by simp
qed

section \<open>Creating entities\<close>

text \<open>
  C1, as the specification states it: when every identifier in \<open>[1, kMaxEntities)\<close> is
  live, \<^verbatim>\<open>create()\<close> returns 0. It does not: \<^verbatim>\<open>create\<close> returns the value the scan
  stopped at, which is \<^verbatim>\<open>kMaxEntities\<close>. With \<^verbatim>\<open>kMaxEntities = 4\<close> and the identifiers
  1, 2, 3 live, the call returns 4.
\<close>

theorem create_exhausted_counterexample:
  "kMaxEntities cfg0 = 4 \<and> allocated cfg0 full0 \<and>
   entities_rd full0 1 = Some True \<and> entities_rd full0 2 = Some True \<and>
   entities_rd full0 3 = Some True \<and>
   map_option fst (create cfg0 full0) = Some 4 \<and>
   map_option fst (create cfg0 full0) \<noteq> Some 0"
  by code_simp

text \<open>
  C1, amended: in an allocated state in which every identifier in \<open>[1, kMaxEntities)\<close> is
  live (with \<^verbatim>\<open>kMaxEntities\<close> at least 1), \<^verbatim>\<open>create()\<close> returns \<^verbatim>\<open>kMaxEntities\<close>, an
  identifier outside the table and not 0; it appends the capacity message to the log and
  changes nothing else, so \<^verbatim>\<open>count()\<close> is the same before and after, namely
  \<^verbatim>\<open>kMaxEntities - 1\<close>.
\<close>

theorem create_exhausted:
  assumes "allocated cfg s" and "1 \<le> kMaxEntities cfg"
    and "\<forall>j. 1 \<le> j \<and> j < kMaxEntities cfg \<longrightarrow> entities_rd s j = Some True"
  shows "\<exists>s'. create cfg s = Some (kMaxEntities cfg, s') \<and>
     s' = s\<lparr>logged := logged s @ [''Maximum number of entities reached!'']\<rparr> \<and>
     count cfg s' = count cfg s \<and> count cfg s = Some (kMaxEntities cfg - 1)"
proof -
  let ?s' = "s\<lparr>logged := logged s @ [''Maximum number of entities reached!'']\<rparr>"
  have run: "create cfg s = Some (kMaxEntities cfg, ?s')"
    using create_full [OF assms(1) assms(3)] assms(2) by (simp add: max_def)
  have al': "allocated cfg ?s'"
    using assms(1) by (simp add: allocated_def)
  have same: "\<And>e. entities_rd ?s' e = entities_rd s e"
    by (simp add: entities_rd_def)
  have "filter (\<lambda>e. entities_rd s e = Some True) [1..<kMaxEntities cfg] = [1..<kMaxEntities cfg]"
    using assms(3) by (intro filter_True) auto
  then have cnt: "count cfg s = Some (kMaxEntities cfg - 1)"
    using count_spec [OF assms(1)] by simp
  have "count cfg ?s' = count cfg s"
    using count_spec [OF assms(1)] count_spec [OF al'] same by simp
  with run cnt show ?thesis by simp
qed

theorem create_exhausted_witness:
  "allocated cfg0 full0 \<and> kMaxEntities cfg0 = 4 \<and>
   entities_rd full0 1 = Some True \<and> entities_rd full0 2 = Some True \<and>
   entities_rd full0 3 = Some True \<and>
   create cfg0 full0 =
     Some (4, full0\<lparr>logged := [''Maximum number of entities reached!'']\<rparr>) \<and>
   count cfg0 full0 = Some 3"
proof -
  have a: "allocated cfg0 full0" by code_simp
  have b: "1 \<le> kMaxEntities cfg0" by code_simp
  have k: "kMaxEntities cfg0 = 4" by code_simp
  have l: "logged full0 = []" by code_simp
  have e: "entities_rd full0 1 = Some True" "entities_rd full0 2 = Some True"
    "entities_rd full0 3 = Some True" by code_simp+
  have c: "\<forall>j. 1 \<le> j \<and> j < kMaxEntities cfg0 \<longrightarrow> entities_rd full0 j = Some True"
  proof (intro allI impI)
    fix j assume "1 \<le> j \<and> j < kMaxEntities cfg0"
    with k have "j = 1 \<or> j = 2 \<or> j = 3" by auto
    with e show "entities_rd full0 j = Some True" by auto
  qed
  from create_exhausted [OF a b c] k l a e show ?thesis by simp
qed

text \<open>
  C2. In every state that is allocated once \<^verbatim>\<open>create\<close> has made its call to \<^verbatim>\<open>alloc\<close>
  (the state before any allocation, and every allocated state) and that has a
  non-live identifier in \<open>[1, kMaxEntities)\<close>, \<^verbatim>\<open>create()\<close> returns the lowest such
  identifier \<open>e\<close> and sets its flag, changing nothing else. In particular, after any
  number \<open>n\<close> of further \<^verbatim>\<open>create()\<close> calls, all of which return identifiers above \<open>e\<close>,
  so that \<open>e\<close> is the lowest of the identifiers created, \<^verbatim>\<open>destroyNow(e)\<close> followed by
  \<^verbatim>\<open>create()\<close> returns \<open>e\<close> again.
\<close>

theorem create_lowest_free:
  assumes al: "allocated cfg (alloc cfg s)"
    and free: "\<exists>j. 1 \<le> j \<and> j < kMaxEntities cfg \<and> entities_rd (alloc cfg s) j = Some False"
  shows "\<exists>e s'. create cfg s = Some (e, s') \<and> 1 \<le> e \<and> e < kMaxEntities cfg \<and>
     entities_rd (alloc cfg s) e = Some False \<and>
     (\<forall>j. 1 \<le> j \<and> j < e \<longrightarrow> entities_rd (alloc cfg s) j = Some True) \<and>
     entities_wr e True (alloc cfg s) = Some s' \<and>
     (\<forall>x. entities_rd s' x = (if x = e then Some True else entities_rd (alloc cfg s) x)) \<and>
     (\<forall>n. \<exists>ids s2 s3 s4. create_many cfg n s' = Some (ids, s2) \<and> (\<forall>x \<in> set ids. e < x) \<and>
        destroyNow cfg e s2 = Some s3 \<and> create cfg s3 = Some (e, s4))"
proof -
  let ?s = "alloc cfg s"
  let ?free = "\<lambda>j. 1 \<le> j \<and> j < kMaxEntities cfg \<and> entities_rd ?s j = Some False"
  define e where "e = (LEAST j. ?free j)"
  from free have fe: "?free e"
    unfolding e_def by (rule LeastI_ex)
  have below: "\<forall>j. 1 \<le> j \<and> j < e \<longrightarrow> entities_rd ?s j = Some True"
  proof (intro allI impI)
    fix j assume j: "1 \<le> j \<and> j < e"
    then have "\<not> ?free j" unfolding e_def using not_less_Least by blast
    moreover from j fe have "j < kMaxEntities cfg" by simp
    moreover from entities_rd_allocated [OF al this]
    obtain b where "entities_rd ?s j = Some b" by blast
    ultimately show "entities_rd ?s j = Some True" using j by (cases b) auto
  qed
  from fe have e: "1 \<le> e" "e < kMaxEntities cfg" "entities_rd ?s e = Some False"
    by simp_all
  from create_free [OF al e below]
  obtain s' where s': "create cfg ?s = Some (e, s')" "entities_wr e True ?s = Some s'"
    "allocated cfg s'"
    "\<forall>x. entities_rd s' x = (if x = e then Some True else entities_rd ?s x)"
    by blast
  have again: "\<exists>ids s2 s3 s4. create_many cfg n s' = Some (ids, s2) \<and> (\<forall>x \<in> set ids. e < x) \<and>
        destroyNow cfg e s2 = Some s3 \<and> create cfg s3 = Some (e, s4)" for n
  proof -
    have live': "\<forall>j. 1 \<le> j \<and> j \<le> e \<longrightarrow> entities_rd s' j = Some True"
      using s'(4) below by (simp add: le_less)
    from create_many_spec [OF s'(3) e(2) live', of n]
    obtain ids s2 where s2: "create_many cfg n s' = Some (ids, s2)" "allocated cfg s2"
      "\<forall>x. entities_rd s' x = Some True \<longrightarrow> entities_rd s2 x = Some True"
      "\<forall>x \<in> set ids. e < x"
      by blast
    from destroyNow_spec [OF s2(2) e(2)]
    obtain s3 where s3: "destroyNow cfg e s2 = Some s3" "allocated cfg s3"
      "\<forall>x. entities_rd s3 x = (if x = e \<and> e \<noteq> 0 then Some False else entities_rd s2 x)"
      by blast
    have f3: "entities_rd s3 e = Some False"
      using s3(3) e(1) by simp
    have b3: "\<forall>j. 1 \<le> j \<and> j < e \<longrightarrow> entities_rd s3 j = Some True"
      using s3(3) s2(3) live' by simp
    from create_free [OF s3(2) e(1,2) f3 b3]
    obtain s4 where "create cfg s3 = Some (e, s4)" by blast
    with s2(1,4) s3(1) show ?thesis by blast
  qed
  have "create cfg s = Some (e, s')"
    using s'(1) by (simp add: create_alloc)
  with e below s'(2,4) again show ?thesis by blast
qed

theorem create_lowest_free_witness:
  "allocated cfg0 (alloc cfg0 ex2) \<and>
   (\<exists>j. 1 \<le> j \<and> j < kMaxEntities cfg0 \<and> entities_rd (alloc cfg0 ex2) j = Some False) \<and>
   map_option fst (create cfg0 ex2) = Some 2 \<and>
   create_many cfg0 3 init = Some ([1, 2, 3], full0) \<and>
   map_option fst (destroyNow cfg0 1 full0 \<bind> create cfg0) = Some 1"
proof -
  have a: "allocated cfg0 (alloc cfg0 ex2)" by code_simp
  have "1 \<le> (2::nat) \<and> 2 < kMaxEntities cfg0 \<and> entities_rd (alloc cfg0 ex2) 2 = Some False"
    by code_simp
  then have b: "\<exists>j. 1 \<le> j \<and> j < kMaxEntities cfg0 \<and> entities_rd (alloc cfg0 ex2) j = Some False"
    by blast
  have c: "map_option fst (create cfg0 ex2) = Some 2" by code_simp
  have d: "create_many cfg0 3 init = Some ([1, 2, 3], full0)" by code_simp
  have e: "map_option fst (destroyNow cfg0 1 full0 \<bind> create cfg0) = Some 1" by code_simp
  from create_lowest_free [OF a b] a b c d e show ?thesis by simp
qed

section \<open>The dense id-lists and the slots\<close>

text \<open>
  C3. Take any sequence of \<^verbatim>\<open>create\<close>, \<^verbatim>\<open>destroyNow\<close>, \<^verbatim>\<open>destroyAll\<close>, \<^verbatim>\<open>addComponent\<close> and
  \<^verbatim>\<open>removeComponent\<close> calls, run from the freshly allocated state. If every \<^verbatim>\<open>destroyNow\<close>
  in it is given an identifier that is 0 or below \<^verbatim>\<open>kMaxEntities\<close> (the other calls with
  any arguments), the sequence has a defined final state. In every state \<open>s\<close> a sequence
  ends in, and for every registered component type \<open>cid\<close>: \<^verbatim>\<open>getAll(cid)\<close> is a list in
  which an identifier \<open>eid\<close> below \<^verbatim>\<open>kMaxEntities\<close> occurs exactly once if and only if
  \<^verbatim>\<open>getComponent(cid, eid)\<close> is not null; and the set of the identifiers in \<^verbatim>\<open>getAll(cid)\<close>
  is the set of the identifiers for which \<^verbatim>\<open>getComponent(cid, eid)\<close> is not null.
\<close>

theorem dense_list_matches_slots:
  assumes "cid < numCids cfg"
  shows "(list_all (defined_call cfg) calls \<longrightarrow>
        (\<exists>s. run cfg calls (alloc cfg init) = Some s)) \<and>
     (\<forall>s. run cfg calls (alloc cfg init) = Some s \<longrightarrow>
        (\<exists>eids. getAll cfg cid s = Some eids \<and>
           (\<forall>eid. eid < kMaxEntities cfg \<longrightarrow>
              (\<exists>c. getComponent cfg cid eid s = Some c \<and>
                 (c \<noteq> None) = (count_list eids eid = 1))) \<and>
           set eids = {eid. \<exists>p. getComponent cfg cid eid s = Some (Some p)}))"
proof (intro conjI impI allI)
  assume "list_all (defined_call cfg) calls"
  with allocated_alloc show "\<exists>s. run cfg calls (alloc cfg init) = Some s"
    by (rule run_defined)
next
  fix s assume run: "run cfg calls (alloc cfg init) = Some s"
  have co: "consistent cfg s"
    using consistent_alloc run by (rule run_consistent)
  then have al: "allocated cfg s" by (rule consistent_allocated)
  from componentEids_rd_allocated [OF al assms]
  obtain eids where eids: "componentEids_rd s cid = Some eids" by blast
  note d = dense_okD [OF co assms eids]
  have cnt: "(count_list eids eid = 1) = (eid \<in> set eids)" for eid
    using d(1) by (simp add: count_list_distinct)
  have one: "\<exists>c. getComponent cfg cid eid s = Some c \<and> (c \<noteq> None) = (count_list eids eid = 1)"
    if e: "eid < kMaxEntities cfg" for eid
  proof -
    from components_rd_allocated [OF al assms e]
    obtain c where c: "components_rd s cid eid = Some c" by blast
    with d(3) [OF e] cnt [of eid] e assms show ?thesis
      by (simp add: getComponent_def)
  qed
  have "set eids = {eid. \<exists>p. getComponent cfg cid eid s = Some (Some p)}"
  proof (intro set_eqI iffI)
    fix eid assume m: "eid \<in> set eids"
    then have e: "eid < kMaxEntities cfg" by (rule d(2))
    from components_rd_allocated [OF al assms e]
    obtain c where c: "components_rd s cid eid = Some c" by blast
    with d(3) [OF e] m obtain p where "c = Some p" by (cases c) auto
    with c e assms show "eid \<in> {eid. \<exists>p. getComponent cfg cid eid s = Some (Some p)}"
      by (simp add: getComponent_def)
  next
    fix eid assume "eid \<in> {eid. \<exists>p. getComponent cfg cid eid s = Some (Some p)}"
    then obtain p where p: "getComponent cfg cid eid s = Some (Some p)" by blast
    then have e: "eid < kMaxEntities cfg"
      by (auto simp: getComponent_def split: if_splits)
    with p assms have "components_rd s cid eid = Some (Some p)"
      by (simp add: getComponent_def)
    with d(3) [OF e] show "eid \<in> set eids" by simp
  qed
  with eids one assms show "\<exists>eids. getAll cfg cid s = Some eids \<and>
           (\<forall>eid. eid < kMaxEntities cfg \<longrightarrow>
              (\<exists>c. getComponent cfg cid eid s = Some c \<and>
                 (c \<noteq> None) = (count_list eids eid = 1))) \<and>
           set eids = {eid. \<exists>p. getComponent cfg cid eid s = Some (Some p)}"
    by (simp add: getAll_def)
qed

theorem dense_list_matches_slots_witness:
  "0 < numCids cfg0 \<and>
   list_all (defined_call cfg0) [Create, Create, AddComponent 0 1 (Some 7),
     AddComponent 0 2 (Some 8), AddComponent 1 2 (Some 9)] \<and>
   run cfg0 [Create, Create, AddComponent 0 1 (Some 7), AddComponent 0 2 (Some 8),
     AddComponent 1 2 (Some 9)] (alloc cfg0 init) = Some ex1 \<and>
   getAll cfg0 0 ex1 = Some [1, 2] \<and>
   {eid. \<exists>p. getComponent cfg0 0 eid ex1 = Some (Some p)} = {1, 2}"
proof -
  have n: "0 < numCids cfg0" by code_simp
  have g: "getAll cfg0 0 ex1 = Some [1, 2]" by code_simp
  have ok: "list_all (defined_call cfg0) [Create, Create, AddComponent 0 1 (Some 7),
     AddComponent 0 2 (Some 8), AddComponent 1 2 (Some 9)]" by simp
  from dense_list_matches_slots [OF n, of "[Create, Create, AddComponent 0 1 (Some 7),
     AddComponent 0 2 (Some 8), AddComponent 1 2 (Some 9)]"] ex1_run g
  have "set [1, 2] = {eid. \<exists>p. getComponent cfg0 0 eid ex1 = Some (Some p)}" by auto
  with ex1_run n g ok show ?thesis by auto
qed

section \<open>Destroying entities\<close>

text \<open>
  C4. In a consistent state (every state reached by calls from the freshly allocated one
  is consistent) and for a live identifier \<open>eid\<close> in \<open>[1, kMaxEntities)\<close>,
  \<^verbatim>\<open>destroyNow(eid)\<close> returns, and first runs its loop of \<^verbatim>\<open>removeComponent\<close> calls to a
  state \<open>s1\<close> in which \<open>eid\<close> is still live and every slot \<open>(cid, eid)\<close> is empty, and
  only then clears the flag. In the final state \<open>eid\<close> is not live, and for every
  registered \<open>cid\<close>, \<^verbatim>\<open>getComponent(cid, eid)\<close> is null and \<open>eid\<close> is not in \<^verbatim>\<open>getAll(cid)\<close>.
\<close>

theorem destroyNow_cascade:
  assumes co: "consistent cfg s" and eid: "1 \<le> eid" "eid < kMaxEntities cfg"
    and live: "entities_rd s eid = Some True"
  shows "\<exists>s1 s'. destroyNow_loop cfg eid 0 s = Some s1 \<and> entities_rd s1 eid = Some True \<and>
     (\<forall>cid. cid < numCids cfg \<longrightarrow> components_rd s1 cid eid = Some None) \<and>
     entities_wr eid False s1 = Some s' \<and> destroyNow cfg eid s = Some s' \<and>
     entities_rd s' eid = Some False \<and>
     (\<forall>cid. cid < numCids cfg \<longrightarrow> getComponent cfg cid eid s' = Some None \<and>
        (\<exists>l. getAll cfg cid s' = Some l \<and> eid \<notin> set l))"
proof -
  have al: "allocated cfg s" using co by (rule consistent_allocated)
  from destroyNow_loop_spec [OF al, of eid 0]
  obtain s1 where s1: "destroyNow_loop cfg eid 0 s = Some s1" "allocated cfg s1"
    "entities s1 = entities s"
    "eid < kMaxEntities cfg \<and> entities_rd s eid = Some True \<longrightarrow>
        (\<forall>c. 0 \<le> c \<and> c < numCids cfg \<longrightarrow> components_rd s1 c eid = Some None)"
    by (elim exE conjE) (rule that; assumption)
  have live1: "entities_rd s1 eid = Some True"
    using live entities_rd_cong [OF s1(3)] by simp
  have empty1: "\<forall>cid. cid < numCids cfg \<longrightarrow> components_rd s1 cid eid = Some None"
    using s1(4) eid live by simp
  from entities_wr_allocated [OF s1(2) eid(2), of False]
  obtain s' where s': "entities_wr eid False s1 = Some s'" "components s' = components s1"
    "\<forall>e. entities_rd s' e = (if e = eid then Some False else entities_rd s1 e)"
    by (elim exE conjE) (rule that; assumption)
  have run: "destroyNow cfg eid s = Some s'"
    using eid s1(1) s'(1) by (simp add: destroyNow_def)
  have co': "consistent cfg s'"
    using co run by (rule destroyNow_consistent)
  have dead: "entities_rd s' eid = Some False"
    using s'(3) by simp
  have gone: "getComponent cfg cid eid s' = Some None \<and>
      (\<exists>l. getAll cfg cid s' = Some l \<and> eid \<notin> set l)" if c: "cid < numCids cfg" for cid
  proof -
    have e: "components_rd s' cid eid = Some None"
      using empty1 c components_rd_cong [OF s'(2)] by simp
    from componentEids_rd_allocated [OF consistent_allocated [OF co'] c]
    obtain l where l: "componentEids_rd s' cid = Some l" by blast
    from dense_okD(3) [OF co' c l eid(2)] e have "eid \<notin> set l" by simp
    with e l c eid show ?thesis by (simp add: getComponent_def getAll_def)
  qed
  from s1(1) live1 empty1 s'(1) run dead gone show ?thesis by blast
qed

theorem destroyNow_cascade_witness:
  "consistent cfg0 ex1 \<and> entities_rd ex1 2 = Some True \<and>
   getComponent cfg0 0 2 ex1 = Some (Some 8) \<and> getComponent cfg0 1 2 ex1 = Some (Some 9) \<and>
   (\<exists>s'. destroyNow cfg0 2 ex1 = Some s' \<and> entities_rd s' 2 = Some False \<and>
      getComponent cfg0 0 2 s' = Some None \<and> getComponent cfg0 1 2 s' = Some None \<and>
      getAll cfg0 0 s' = Some [1] \<and> getAll cfg0 1 s' = Some [] \<and> deleted s' = [8, 9])"
proof -
  have a: "1 \<le> (2::nat)" "2 < kMaxEntities cfg0" "entities_rd ex1 2 = Some True"
    by code_simp+
  have b: "getComponent cfg0 0 2 ex1 = Some (Some 8)" "getComponent cfg0 1 2 ex1 = Some (Some 9)"
    by code_simp+
  from destroyNow_cascade [OF ex1_consistent a]
  obtain s' where s': "destroyNow cfg0 2 ex1 = Some s'" "entities_rd s' 2 = Some False"
    by blast
  have "destroyNow cfg0 2 ex1 =
    Some \<lparr>entities = Some [False, True, False, False],
          components = Some [[None, Some 7, None, None], [None, None, None, None]],
          componentEids = Some [[1], []], deleted = [8, 9], logged = []\<rparr>"
    by code_simp
  with s'(1) have eq: "s' = \<lparr>entities = Some [False, True, False, False],
          components = Some [[None, Some 7, None, None], [None, None, None, None]],
          componentEids = Some [[1], []], deleted = [8, 9], logged = []\<rparr>"
    by simp
  have "getComponent cfg0 0 2 s' = Some None \<and> getComponent cfg0 1 2 s' = Some None \<and>
      getAll cfg0 0 s' = Some [1] \<and> getAll cfg0 1 s' = Some [] \<and> deleted s' = [8, 9]"
    unfolding eq by code_simp
  with ex1_consistent a(3) b s' show ?thesis by blast
qed

text \<open>
  C10. In an allocated state, \<^verbatim>\<open>destroyNow(eid)\<close> with an identifier in
  \<open>[1, kMaxEntities)\<close> that is not live returns the state it was given. With any identifier
  below \<^verbatim>\<open>kMaxEntities\<close>, a second \<^verbatim>\<open>destroyNow(eid)\<close> right after the first returns the
  state the first one returned: two calls in a row do what one does.
\<close>

theorem destroyNow_idempotent:
  assumes al: "allocated cfg s" and eid: "eid < kMaxEntities cfg"
  shows "(1 \<le> eid \<and> entities_rd s eid = Some False \<longrightarrow> destroyNow cfg eid s = Some s) \<and>
     (\<exists>s1. destroyNow cfg eid s = Some s1 \<and> destroyNow cfg eid s1 = Some s1)"
proof -
  from destroyNow_spec [OF al eid]
  obtain s1 where s1: "destroyNow cfg eid s = Some s1" "allocated cfg s1"
    "\<forall>e. entities_rd s1 e = (if e = eid \<and> eid \<noteq> 0 then Some False else entities_rd s e)"
    "eid = 0 \<or> entities_rd s eid \<noteq> Some True \<longrightarrow> s1 = s"
    by (elim exE conjE) (rule that; assumption)
  have first: "1 \<le> eid \<and> entities_rd s eid = Some False \<longrightarrow> destroyNow cfg eid s = Some s"
    using s1(1,4) by auto
  from destroyNow_spec [OF s1(2) eid]
  obtain s2 where s2: "destroyNow cfg eid s1 = Some s2"
    "eid = 0 \<or> entities_rd s1 eid \<noteq> Some True \<longrightarrow> s2 = s1"
    by (elim exE conjE) (rule that; assumption)
  have "eid = 0 \<or> entities_rd s1 eid \<noteq> Some True"
    using s1(3) by simp
  with s2 have "destroyNow cfg eid s1 = Some s1" by simp
  with s1(1) first show ?thesis by blast
qed

theorem destroyNow_idempotent_witness:
  "allocated cfg0 ex2 \<and> 2 < kMaxEntities cfg0 \<and> entities_rd ex2 2 = Some False \<and>
   destroyNow cfg0 2 ex2 = Some ex2 \<and>
   (\<exists>s1. destroyNow cfg0 3 ex2 = Some s1 \<and> destroyNow cfg0 3 s1 = Some s1 \<and> s1 \<noteq> ex2)"
proof -
  have a: "allocated cfg0 ex2" by code_simp
  have b: "2 < kMaxEntities cfg0" "3 < kMaxEntities cfg0" by code_simp+
  have c: "1 \<le> (2::nat) \<and> entities_rd ex2 2 = Some False" by code_simp
  from destroyNow_idempotent [OF a b(1)] c
  have d: "destroyNow cfg0 2 ex2 = Some ex2" by blast
  from destroyNow_idempotent [OF a b(2)]
  obtain s1 where s1: "destroyNow cfg0 3 ex2 = Some s1" "destroyNow cfg0 3 s1 = Some s1"
    by blast
  have "destroyNow cfg0 3 ex2 \<noteq> Some ex2" by code_simp
  with s1 have "s1 \<noteq> ex2" by auto
  with a b c d s1 show ?thesis by blast
qed

section \<open>Detaching components\<close>

text \<open>
  C5. For an in-range \<open>cid\<close> and a live in-range \<open>eid\<close>: when the slot \<open>(cid, eid)\<close> is
  empty, \<^verbatim>\<open>removeComponent(cid, eid)\<close> returns the state it was given; and whatever the
  slot holds, in an allocated state the call returns a state in which the slot is empty,
  and a second call right after it returns that state unchanged.
\<close>

theorem removeComponent_absent:
  assumes "cid < numCids cfg" and "eid < kMaxEntities cfg"
    and "entities_rd s eid = Some True"
  shows "(components_rd s cid eid = Some None \<longrightarrow> removeComponent cfg cid eid s = Some s) \<and>
     (allocated cfg s \<longrightarrow>
        (\<exists>s1. removeComponent cfg cid eid s = Some s1 \<and>
           getComponent cfg cid eid s1 = Some None \<and>
           removeComponent cfg cid eid s1 = Some s1))"
proof (intro conjI impI)
  assume "components_rd s cid eid = Some None"
  with assms(3) show "removeComponent cfg cid eid s = Some s"
    by (intro removeComponent_noop) simp
next
  assume al: "allocated cfg s"
  from removeComponent_spec [OF al, of cid eid]
  obtain s1 where s1: "removeComponent cfg cid eid s = Some s1" "allocated cfg s1"
    "entities s1 = entities s"
    "eid < kMaxEntities cfg \<and> cid < numCids cfg \<and> entities_rd s eid = Some True \<longrightarrow>
        components_rd s1 cid eid = Some None"
    by (elim exE conjE) (rule that; assumption)
  have e: "components_rd s1 cid eid = Some None"
    using s1(4) assms by simp
  have l: "entities_rd s1 eid = Some True"
    using assms(3) entities_rd_cong [OF s1(3)] by simp
  have "removeComponent cfg cid eid s1 = Some s1"
    using e l by (intro removeComponent_noop) simp
  moreover have "getComponent cfg cid eid s1 = Some None"
    using e assms(1,2) by (simp add: getComponent_def)
  ultimately show "\<exists>s1. removeComponent cfg cid eid s = Some s1 \<and>
           getComponent cfg cid eid s1 = Some None \<and>
           removeComponent cfg cid eid s1 = Some s1"
    using s1(1) by blast
qed

theorem removeComponent_absent_witness:
  "1 < numCids cfg0 \<and> 1 < kMaxEntities cfg0 \<and> entities_rd ex1 1 = Some True \<and>
   components_rd ex1 1 1 = Some None \<and> removeComponent cfg0 1 1 ex1 = Some ex1 \<and>
   allocated cfg0 ex1 \<and> components_rd ex1 0 1 = Some (Some 7) \<and>
   (\<exists>s1. removeComponent cfg0 0 1 ex1 = Some s1 \<and> getComponent cfg0 0 1 s1 = Some None \<and>
      removeComponent cfg0 0 1 s1 = Some s1)"
proof -
  have a: "1 < numCids cfg0" "1 < kMaxEntities cfg0" "entities_rd ex1 1 = Some True"
    by code_simp+
  have b: "0 < numCids cfg0" by code_simp
  have c: "components_rd ex1 1 1 = Some None" "components_rd ex1 0 1 = Some (Some 7)"
    by code_simp+
  from removeComponent_absent [OF a] c(1)
  have d: "removeComponent cfg0 1 1 ex1 = Some ex1" by blast
  from removeComponent_absent [OF b a(2,3)] ex1_allocated
  have "\<exists>s1. removeComponent cfg0 0 1 ex1 = Some s1 \<and> getComponent cfg0 0 1 s1 = Some None \<and>
      removeComponent cfg0 0 1 s1 = Some s1" by blast
  with a c d ex1_allocated show ?thesis by blast
qed

text \<open>
  C8. In a consistent state, for an in-range \<open>cid\<close> and a live in-range \<open>eid\<close> whose slot
  is occupied, the dense id-list of \<open>cid\<close> is \<open>xs @ eid # ys\<close> with no \<open>eid\<close> in \<open>xs\<close> or
  \<open>ys\<close>, and after \<^verbatim>\<open>removeComponent(cid, eid)\<close> it is \<open>xs @ ys\<close>: one occurrence is removed
  and the other elements keep their order. The lists of the other types are unchanged.
\<close>

theorem removeComponent_stable:
  assumes co: "consistent cfg s" and cid: "cid < numCids cfg" and eid: "eid < kMaxEntities cfg"
    and live: "entities_rd s eid = Some True"
    and slot: "components_rd s cid eid = Some (Some p)"
  shows "\<exists>s' xs ys. removeComponent cfg cid eid s = Some s' \<and>
     getAll cfg cid s = Some (xs @ eid # ys) \<and> eid \<notin> set xs \<and> eid \<notin> set ys \<and>
     getAll cfg cid s' = Some (xs @ ys) \<and>
     (\<forall>c. c \<noteq> cid \<longrightarrow> getAll cfg c s' = getAll cfg c s)"
proof -
  have al: "allocated cfg s" using co by (rule consistent_allocated)
  from componentEids_rd_allocated [OF al cid]
  obtain l where l: "componentEids_rd s cid = Some l" by blast
  note d = dense_okD [OF co cid l]
  from d(3) [OF eid] slot have "eid \<in> set l" by simp
  from split_list_first [OF this]
  obtain xs ys where split: "l = xs @ eid # ys" "eid \<notin> set xs"
    by (elim exE conjE) (rule that; assumption)
  with d(1) have ys: "eid \<notin> set ys" by simp
  have rm: "remove1 eid l = xs @ ys"
    using split by (simp add: remove1_append)
  from removeComponent_removes [OF al eid cid live slot l]
  obtain s' where s': "removeComponent cfg cid eid s = Some s'"
    "\<forall>c. componentEids_rd s' c =
        (if c = cid then Some (remove1 eid l) else componentEids_rd s c)"
    by (elim exE conjE) (rule that; assumption)
  have before: "getAll cfg cid s = Some (xs @ eid # ys)"
    using l split(1) cid by (simp add: getAll_def)
  have after: "getAll cfg cid s' = Some (xs @ ys)"
    using s'(2) rm cid by (simp add: getAll_def)
  have others: "\<forall>c. c \<noteq> cid \<longrightarrow> getAll cfg c s' = getAll cfg c s"
    using s'(2) by (simp add: getAll_def)
  show ?thesis
    by (intro exI [of _ s'] exI [of _ xs] exI [of _ ys] conjI s'(1) before split(2) ys
        after others)
qed

theorem removeComponent_stable_witness:
  "consistent cfg0 ex3 \<and> 0 < numCids cfg0 \<and> 2 < kMaxEntities cfg0 \<and>
   entities_rd ex3 2 = Some True \<and> components_rd ex3 0 2 = Some (Some 8) \<and>
   getAll cfg0 0 ex3 = Some [3, 2, 1] \<and>
   (\<exists>s'. removeComponent cfg0 0 2 ex3 = Some s' \<and> getAll cfg0 0 s' = Some [3, 1])"
proof -
  have a: "consistent cfg0 ex3" by code_simp
  have b: "0 < numCids cfg0" "2 < kMaxEntities cfg0" "entities_rd ex3 2 = Some True"
    "components_rd ex3 0 2 = Some (Some 8)" by code_simp+
  have g: "getAll cfg0 0 ex3 = Some [3, 2, 1]" by code_simp
  from removeComponent_stable [OF a b]
  obtain s' xs ys where s': "removeComponent cfg0 0 2 ex3 = Some s'"
    "getAll cfg0 0 ex3 = Some (xs @ 2 # ys)" "2 \<notin> set xs" "2 \<notin> set ys"
    "getAll cfg0 0 s' = Some (xs @ ys)"
    by blast
  from s'(2) g have "[3, 2, 1] = xs @ 2 # ys" by simp
  with s'(3,4) have "xs = [3] \<and> ys = [1]"
    by (auto simp: append_eq_Cons_conv Cons_eq_append_conv)
  with s'(5) have "getAll cfg0 0 s' = Some [3, 1]" by simp
  with a b g s'(1) show ?thesis by blast
qed

section \<open>Lookup\<close>

text \<open>
  C6. In the checked form, \<^verbatim>\<open>getComponent(cid, eid)\<close> with \<^verbatim>\<open>eid >= kMaxEntities\<close> or
  \<^verbatim>\<open>cid >= numCids\<close> returns \<^verbatim>\<open>nullptr\<close> in every state, also one whose tables are
  not allocated, where any indexing would be undefined: the tables are not indexed.
  For an in-range pair the result is the content of the slot: in an allocated state the
  element \<^verbatim>\<open>components[cid][eid]\<close>.
\<close>

theorem getComponent_checked:
  "(kMaxEntities cfg \<le> eid \<or> numCids cfg \<le> cid \<longrightarrow> getComponent cfg cid eid s = Some None) \<and>
   (eid < kMaxEntities cfg \<and> cid < numCids cfg \<longrightarrow>
      getComponent cfg cid eid s = components_rd s cid eid \<and>
      (\<forall>cs. allocated cfg s \<and> components s = Some cs \<longrightarrow>
         getComponent cfg cid eid s = Some (cs ! cid ! eid)))"
  by (auto simp: getComponent_def components_rd_def allocated_def split: option.splits)

theorem getComponent_checked_witness:
  "kMaxEntities cfg0 \<le> 4 \<and> getComponent cfg0 0 4 init = Some None \<and>
   1 < kMaxEntities cfg0 \<and> 0 < numCids cfg0 \<and> allocated cfg0 ex1 \<and>
   components ex1 = Some [[None, Some 7, Some 8, None], [None, None, Some 9, None]] \<and>
   getComponent cfg0 0 1 ex1 = Some (Some 7)"
proof -
  have a: "kMaxEntities cfg0 \<le> 4" by code_simp
  have b: "1 < kMaxEntities cfg0 \<and> 0 < numCids cfg0" by code_simp
  have c: "components ex1 = Some [[None, Some 7, Some 8, None], [None, None, Some 9, None]]"
    by code_simp
  have d: "[[None, Some 7, Some 8, None], [None, None, Some 9, None]] ! 0 ! 1 = Some (7::nat)"
    by simp
  have e: "getComponent cfg0 0 4 init = Some None"
    using a getComponent_checked [of cfg0 4 0 init] by blast
  have "getComponent cfg0 0 1 ex1 =
      Some ([[None, Some 7, Some 8, None], [None, None, Some 9, None]] ! 0 ! 1)"
    using b c ex1_allocated getComponent_checked [of cfg0 1 0 ex1] by blast
  with a b c d e ex1_allocated show ?thesis
    by simp
qed

section \<open>Attaching components\<close>

lemma addComponent_unfold:
  assumes "eid < kMaxEntities cfg" "cid < numCids cfg" "entities_rd s eid = Some True"
    and "components_rd s cid eid = Some old"
    and "(if old \<noteq> None then removeComponent cfg cid eid s else Some s) = Some s1"
  shows "addComponent cfg cid eid (Some c) s =
     do {
       s2 \<leftarrow> components_wr cid eid (Some c) s1;
       eids \<leftarrow> componentEids_rd s2 cid;
       componentEids_wr cid (eids @ [eid]) s2
     }"
  using assms by (simp add: addComponent_def)

text \<open>An accepted \<^verbatim>\<open>addComponent\<close> in a consistent state.\<close>

lemma addComponent_attach:
  assumes co: "consistent cfg s" and cid: "cid < numCids cfg" and eid: "eid < kMaxEntities cfg"
    and live: "entities_rd s eid = Some True"
  shows "\<exists>s'. addComponent cfg cid eid (Some c) s = Some s' \<and> consistent cfg s' \<and>
     entities_rd s' eid = Some True \<and> components_rd s' cid eid = Some (Some c) \<and>
     deleted s' = deleted s @
       (case components_rd s cid eid of Some (Some old) \<Rightarrow> [old] | _ \<Rightarrow> []) \<and>
     map_option (\<lambda>l. count_list l eid) (componentEids_rd s' cid) = Some 1"
proof -
  have al: "allocated cfg s" using co by (rule consistent_allocated)
  from addComponent_prepares [OF al eid cid live]
  obtain s1 where s1: "(if components_rd s cid eid \<noteq> Some None
      then removeComponent cfg cid eid s else Some s) = Some s1"
    "allocated cfg s1" "entities s1 = entities s"
    "deleted s1 = deleted s @
       (case components_rd s cid eid of Some (Some p) \<Rightarrow> [p] | _ \<Rightarrow> [])"
    by (elim exE conjE) (rule that; assumption)
  from componentEids_rd_allocated [OF s1(2) cid]
  obtain l1 where l1: "componentEids_rd s1 cid = Some l1" by blast
  from addComponent_installs [OF al eid cid live s1(1) l1, of c]
  obtain s' where s': "addComponent cfg cid eid (Some c) s = Some s'"
    "entities s' = entities s1" "deleted s' = deleted s1"
    "\<forall>c' e. components_rd s' c' e =
        (if c' = cid \<and> e = eid then Some (Some c) else components_rd s1 c' e)"
    "\<forall>c'. componentEids_rd s' c' =
        (if c' = cid then Some (l1 @ [eid]) else componentEids_rd s1 c')"
    by (elim exE conjE) (rule that; assumption)
  have co': "consistent cfg s'"
    using co s'(1) by (rule addComponent_consistent)
  have l': "componentEids_rd s' cid = Some (l1 @ [eid])"
    using s'(5) by simp
  have "count_list (l1 @ [eid]) eid = 1"
    using dense_okD(1) [OF co' cid l'] by (simp add: count_list_distinct)
  with l' have cnt: "map_option (\<lambda>l. count_list l eid) (componentEids_rd s' cid) = Some 1"
    by simp
  have live': "entities_rd s' eid = Some True"
    using live entities_rd_cong [OF s'(2)] entities_rd_cong [OF s1(3)] by simp
  have slot': "components_rd s' cid eid = Some (Some c)"
    using s'(4) by simp
  have del: "deleted s' = deleted s @
       (case components_rd s cid eid of Some (Some old) \<Rightarrow> [old] | _ \<Rightarrow> [])"
    using s'(3) s1(4) by simp
  show ?thesis
    by (intro exI [of _ s'] conjI s'(1) co' live' slot' del cnt)
qed

text \<open>
  C7, as the specification states it: for every non-null component \<open>c\<close>, attaching \<open>c\<close> to
  an occupied slot leaves exactly one live instance there. It does not when \<open>c\<close> is the
  pointer the slot already holds: \<^verbatim>\<open>addComponent\<close> passes the stored pointer to \<^verbatim>\<open>delete\<close>
  (line 176, reached from line 142) and then stores \<open>c\<close>, the same pointer (line 146).
  After \<^verbatim>\<open>create()\<close> and \<^verbatim>\<open>addComponent(0, 1, p)\<close>, a second \<^verbatim>\<open>addComponent(0, 1, p)\<close> with
  the same \<open>p\<close> (here the address 7) leaves the slot holding the object it has just
  destroyed: no live instance.
\<close>

theorem addComponent_same_pointer_counterexample:
  "run cfg0 [Create, AddComponent 0 1 (Some 7)] (alloc cfg0 init) = Some ex4 \<and>
   entities_rd ex4 1 = Some True \<and> getComponent cfg0 0 1 ex4 = Some (Some 7) \<and>
   deleted ex4 = [] \<and>
   addComponent cfg0 0 1 (Some 7) ex4 = Some (ex4\<lparr>deleted := [7]\<rparr>) \<and>
   getComponent cfg0 0 1 (ex4\<lparr>deleted := [7]\<rparr>) = Some (Some 7) \<and>
   getAll cfg0 0 (ex4\<lparr>deleted := [7]\<rparr>) = Some [1]"
  by code_simp

text \<open>
  C7, amended: in a consistent state, for an in-range \<open>cid\<close>, a live in-range \<open>eid\<close> whose
  slot holds \<open>old\<close>, and a non-null component \<open>c\<close> other than \<open>old\<close>:
  \<^verbatim>\<open>addComponent(cid, eid, c)\<close> is the removal of the old component, which gives a state
  \<open>s1\<close> with the slot empty and \<open>old\<close> destroyed, followed by what \<^verbatim>\<open>addComponent\<close> does on
  \<open>s1\<close>; so the old instance is gone before \<open>c\<close> is stored. Afterwards the slot holds \<open>c\<close>,
  the call has destroyed \<open>old\<close> and nothing else, and \<open>eid\<close> is in the dense id-list of
  \<open>cid\<close> exactly once. Attaching a further component \<open>c2\<close> other than \<open>c\<close> right after
  destroys \<open>c\<close>, leaves \<open>c2\<close> in the slot and \<open>eid\<close> in the list once.
\<close>

theorem addComponent_replaces:
  assumes co: "consistent cfg s" and cid: "cid < numCids cfg" and eid: "eid < kMaxEntities cfg"
    and live: "entities_rd s eid = Some True"
    and slot: "components_rd s cid eid = Some (Some old)"
    and new: "c \<noteq> old"
  shows "\<exists>s1 s'. removeComponent cfg cid eid s = Some s1 \<and>
     getComponent cfg cid eid s1 = Some None \<and> deleted s1 = deleted s @ [old] \<and>
     addComponent cfg cid eid (Some c) s = Some s' \<and>
     addComponent cfg cid eid (Some c) s1 = Some s' \<and>
     getComponent cfg cid eid s' = Some (Some c) \<and>
     deleted s' = deleted s @ [old] \<and> c \<notin> set [old] \<and>
     (\<exists>l. getAll cfg cid s' = Some l \<and> count_list l eid = 1) \<and>
     (\<forall>c2. c2 \<noteq> c \<longrightarrow>
        (\<exists>s''. addComponent cfg cid eid (Some c2) s' = Some s'' \<and>
           getComponent cfg cid eid s'' = Some (Some c2) \<and>
           deleted s'' = deleted s' @ [c] \<and> c2 \<notin> set [c] \<and>
           (\<exists>l. getAll cfg cid s'' = Some l \<and> count_list l eid = 1)))"
proof -
  have al: "allocated cfg s" using co by (rule consistent_allocated)
  from componentEids_rd_allocated [OF al cid]
  obtain l where l: "componentEids_rd s cid = Some l" by blast
  from removeComponent_removes [OF al eid cid live slot l]
  obtain s1 where s1: "removeComponent cfg cid eid s = Some s1" "allocated cfg s1"
    "entities s1 = entities s" "deleted s1 = deleted s @ [old]"
    "\<forall>c e. components_rd s1 c e =
        (if c = cid \<and> e = eid then Some None else components_rd s c e)"
    by (elim exE conjE) (rule that; assumption)
  have empty1: "components_rd s1 cid eid = Some None"
    using s1(5) by simp
  have get1: "getComponent cfg cid eid s1 = Some None"
    using empty1 cid eid by (simp add: getComponent_def)
  have live1: "entities_rd s1 eid = Some True"
    using live entities_rd_cong [OF s1(3)] by simp
  from addComponent_attach [OF co cid eid live, of c]
  obtain s' where s': "addComponent cfg cid eid (Some c) s = Some s'" "consistent cfg s'"
    "entities_rd s' eid = Some True" "components_rd s' cid eid = Some (Some c)"
    "deleted s' = deleted s @
       (case components_rd s cid eid of Some (Some old) \<Rightarrow> [old] | _ \<Rightarrow> [])"
    "map_option (\<lambda>l. count_list l eid) (componentEids_rd s' cid) = Some 1"
    by (elim exE conjE) (rule that; assumption)
  have del': "deleted s' = deleted s @ [old]"
    using s'(5) slot by simp
  have "addComponent cfg cid eid (Some c) s1 = addComponent cfg cid eid (Some c) s"
    using addComponent_unfold [OF eid cid live slot, of s1 c] s1(1)
      addComponent_unfold [OF eid cid live1 empty1, of s1 c]
    by simp
  with s'(1) have via: "addComponent cfg cid eid (Some c) s1 = Some s'" by simp
  have get': "getComponent cfg cid eid s' = Some (Some c)"
    using s'(4) cid eid by (simp add: getComponent_def)
  have cnt': "\<exists>l. getAll cfg cid s' = Some l \<and> count_list l eid = 1"
    using s'(6) cid by (auto simp: getAll_def)
  have twice: "\<forall>c2. c2 \<noteq> c \<longrightarrow>
        (\<exists>s''. addComponent cfg cid eid (Some c2) s' = Some s'' \<and>
           getComponent cfg cid eid s'' = Some (Some c2) \<and>
           deleted s'' = deleted s' @ [c] \<and> c2 \<notin> set [c] \<and>
           (\<exists>l. getAll cfg cid s'' = Some l \<and> count_list l eid = 1))"
  proof (intro allI impI)
    fix c2 assume c2: "c2 \<noteq> c"
    from addComponent_attach [OF s'(2) cid eid s'(3), of c2]
    obtain s'' where s'': "addComponent cfg cid eid (Some c2) s' = Some s''"
      "components_rd s'' cid eid = Some (Some c2)"
      "deleted s'' = deleted s' @
         (case components_rd s' cid eid of Some (Some old) \<Rightarrow> [old] | _ \<Rightarrow> [])"
      "map_option (\<lambda>l. count_list l eid) (componentEids_rd s'' cid) = Some 1"
      by (elim exE conjE) (rule that; assumption)
    have "getComponent cfg cid eid s'' = Some (Some c2)"
      using s''(2) cid eid by (simp add: getComponent_def)
    moreover have "\<exists>l. getAll cfg cid s'' = Some l \<and> count_list l eid = 1"
      using s''(4) cid by (auto simp: getAll_def)
    moreover have "deleted s'' = deleted s' @ [c]"
      using s''(3) s'(4) by simp
    ultimately show "\<exists>s''. addComponent cfg cid eid (Some c2) s' = Some s'' \<and>
           getComponent cfg cid eid s'' = Some (Some c2) \<and>
           deleted s'' = deleted s' @ [c] \<and> c2 \<notin> set [c] \<and>
           (\<exists>l. getAll cfg cid s'' = Some l \<and> count_list l eid = 1)"
      using s''(1) c2 by auto
  qed
  have fresh: "c \<notin> set [old]" using new by simp
  show ?thesis
    by (intro exI [of _ s1] exI [of _ s'] conjI s1(1) get1 s1(4) s'(1) via get' del'
        fresh cnt' twice)
qed

theorem addComponent_replaces_witness:
  "consistent cfg0 ex4 \<and> 0 < numCids cfg0 \<and> 1 < kMaxEntities cfg0 \<and>
   entities_rd ex4 1 = Some True \<and> components_rd ex4 0 1 = Some (Some 7) \<and>
   (\<exists>s'. addComponent cfg0 0 1 (Some 8) ex4 = Some s' \<and>
      getComponent cfg0 0 1 s' = Some (Some 8) \<and> deleted s' = [7] \<and>
      getAll cfg0 0 s' = Some [1])"
proof -
  have a: "consistent cfg0 ex4" by code_simp
  have b: "0 < numCids cfg0" "1 < kMaxEntities cfg0" "entities_rd ex4 1 = Some True"
    "components_rd ex4 0 1 = Some (Some 7)" by code_simp+
  have n: "(8::nat) \<noteq> 7" by simp
  from addComponent_replaces [OF a b n]
  obtain s' where s': "addComponent cfg0 0 1 (Some 8) ex4 = Some s'"
    "getComponent cfg0 0 1 s' = Some (Some 8)" "deleted s' = deleted ex4 @ [7]"
    by blast
  have "addComponent cfg0 0 1 (Some 8) ex4 =
    Some (ex4\<lparr>components := Some [[None, Some 8, None, None], [None, None, None, None]],
      deleted := [7]\<rparr>)" by code_simp
  with s'(1) have "getAll cfg0 0 s' = Some [1]" "deleted s' = [7]"
    by (auto simp: getAll_def componentEids_rd_def ex4_def cfg0_def)
  with a b s'(1,2) show ?thesis by blast
qed

section \<open>Teardown\<close>

lemma allocated_alloc_any: "components s = None \<Longrightarrow> allocated cfg (alloc cfg s)"
  by (simp add: allocated_def alloc_def)

lemma alloc_fresh:
  assumes "components s = None"
  shows "\<forall>e. e < kMaxEntities cfg \<longrightarrow> entities_rd (alloc cfg s) e = Some False"
    and "\<forall>cid. cid < numCids cfg \<longrightarrow> componentEids_rd (alloc cfg s) cid = Some []"
  using assms by (simp_all add: alloc_def entities_rd_def componentEids_rd_def)

text \<open>
  C9. In an allocated state, whatever entities are live and whatever components are
  attached, \<^verbatim>\<open>dealloc()\<close> returns. It first runs \<^verbatim>\<open>destroyAll\<close>, to a state \<open>s1\<close> in which
  no identifier from 1 is live, every slot of an entity that was live is empty, and
  every component that was attached to a live entity has been destroyed; then it frees
  the three tables. After a following \<^verbatim>\<open>alloc()\<close>, \<^verbatim>\<open>count()\<close> is 0 and \<^verbatim>\<open>getAll(cid)\<close> is
  empty for every registered \<open>cid\<close>. When the three tables are null, \<^verbatim>\<open>dealloc()\<close> returns
  the state it was given.
\<close>

theorem dealloc_clean:
  "(allocated cfg s \<longrightarrow>
      (\<exists>s1 s2. destroyAll cfg s = Some s1 \<and>
         (\<forall>e. 1 \<le> e \<and> e < kMaxEntities cfg \<longrightarrow> entities_rd s1 e = Some False) \<and>
         (\<forall>c e. c < numCids cfg \<and> 1 \<le> e \<and> e < kMaxEntities cfg \<and>
            entities_rd s e = Some True \<longrightarrow> components_rd s1 c e = Some None) \<and>
         (\<forall>c e p. c < numCids cfg \<and> 1 \<le> e \<and> e < kMaxEntities cfg \<and>
            entities_rd s e = Some True \<and> components_rd s c e = Some (Some p) \<longrightarrow>
            p \<in> set (deleted s1)) \<and>
         dealloc cfg s = Some s2 \<and>
         s2 = s1\<lparr>entities := None, components := None, componentEids := None\<rparr> \<and>
         count cfg (alloc cfg s2) = Some 0 \<and>
         (\<forall>cid. cid < numCids cfg \<longrightarrow> getAll cfg cid (alloc cfg s2) = Some []))) \<and>
   (entities s = None \<and> components s = None \<and> componentEids s = None \<longrightarrow>
      dealloc cfg s = Some s)"
proof (intro conjI impI)
  assume al: "allocated cfg s"
  from destroyAll_loop_spec [OF al order_refl]
  obtain s1 where s1: "destroyAll_loop cfg 1 s = Some s1"
    "\<forall>e. entities_rd s1 e =
        (if 1 \<le> e \<and> e < kMaxEntities cfg then Some False else entities_rd s e)"
    "\<forall>c e. c < numCids cfg \<and> 1 \<le> e \<and> e < kMaxEntities cfg \<and>
        entities_rd s e = Some True \<longrightarrow> components_rd s1 c e = Some None"
    "\<forall>c e p. c < numCids cfg \<and> 1 \<le> e \<and> e < kMaxEntities cfg \<and>
        entities_rd s e = Some True \<and> components_rd s c e = Some (Some p) \<longrightarrow>
        p \<in> set (deleted s1)"
    by (elim exE conjE) (rule that; assumption)
  let ?s2 = "s1\<lparr>entities := None, components := None, componentEids := None\<rparr>"
  have da: "destroyAll cfg s = Some s1"
    using s1(1) by (simp add: destroyAll_def)
  have dead: "\<forall>e. 1 \<le> e \<and> e < kMaxEntities cfg \<longrightarrow> entities_rd s1 e = Some False"
    using s1(2) by simp
  have "components s \<noteq> None"
    using al by (auto simp: allocated_def split: option.splits)
  with da have de: "dealloc cfg s = Some ?s2"
    by (simp add: dealloc_def)
  have c2: "components ?s2 = None" by simp
  have al2: "allocated cfg (alloc cfg ?s2)"
    using c2 by (rule allocated_alloc_any)
  have "filter (\<lambda>e. entities_rd (alloc cfg ?s2) e = Some True) [1..<kMaxEntities cfg] = []"
    using alloc_fresh(1) [OF c2, of cfg] by (simp add: filter_empty_conv)
  then have cnt: "count cfg (alloc cfg ?s2) = Some 0"
    using count_spec [OF al2] by simp
  have ga: "\<forall>cid. cid < numCids cfg \<longrightarrow> getAll cfg cid (alloc cfg ?s2) = Some []"
    using alloc_fresh(2) [OF c2, of cfg] by (simp add: getAll_def)
  show "\<exists>s1 s2. destroyAll cfg s = Some s1 \<and>
         (\<forall>e. 1 \<le> e \<and> e < kMaxEntities cfg \<longrightarrow> entities_rd s1 e = Some False) \<and>
         (\<forall>c e. c < numCids cfg \<and> 1 \<le> e \<and> e < kMaxEntities cfg \<and>
            entities_rd s e = Some True \<longrightarrow> components_rd s1 c e = Some None) \<and>
         (\<forall>c e p. c < numCids cfg \<and> 1 \<le> e \<and> e < kMaxEntities cfg \<and>
            entities_rd s e = Some True \<and> components_rd s c e = Some (Some p) \<longrightarrow>
            p \<in> set (deleted s1)) \<and>
         dealloc cfg s = Some s2 \<and>
         s2 = s1\<lparr>entities := None, components := None, componentEids := None\<rparr> \<and>
         count cfg (alloc cfg s2) = Some 0 \<and>
         (\<forall>cid. cid < numCids cfg \<longrightarrow> getAll cfg cid (alloc cfg s2) = Some [])"
    by (intro exI [of _ s1] exI [of _ ?s2] conjI da dead s1(3) s1(4) de refl cnt ga)
next
  assume "entities s = None \<and> components s = None \<and> componentEids s = None"
  then show "dealloc cfg s = Some s"
    by (simp add: dealloc_def)
qed

theorem dealloc_clean_witness:
  "allocated cfg0 ex1 \<and>
   dealloc cfg0 ex1 = Some (init\<lparr>deleted := [7, 8, 9]\<rparr>) \<and>
   count cfg0 ex1 = Some 2 \<and>
   count cfg0 (alloc cfg0 (init\<lparr>deleted := [7, 8, 9]\<rparr>)) = Some 0 \<and>
   getAll cfg0 0 (alloc cfg0 (init\<lparr>deleted := [7, 8, 9]\<rparr>)) = Some [] \<and>
   getAll cfg0 1 (alloc cfg0 (init\<lparr>deleted := [7, 8, 9]\<rparr>)) = Some [] \<and>
   entities init = None \<and> components init = None \<and> componentEids init = None \<and>
   dealloc cfg0 init = Some init"
proof -
  have z: "entities init = None \<and> components init = None \<and> componentEids init = None"
    by code_simp
  have d: "dealloc cfg0 ex1 = Some (init\<lparr>deleted := [7, 8, 9]\<rparr>)" by code_simp
  have n: "0 < numCids cfg0" "1 < numCids cfg0" by code_simp+
  have c: "count cfg0 ex1 = Some 2" by code_simp
  from dealloc_clean [of cfg0 ex1] ex1_allocated
  obtain s2 where s2: "dealloc cfg0 ex1 = Some s2" "count cfg0 (alloc cfg0 s2) = Some 0"
    "\<forall>cid. cid < numCids cfg0 \<longrightarrow> getAll cfg0 cid (alloc cfg0 s2) = Some []"
    by blast
  from s2(1) d have eq: "s2 = init\<lparr>deleted := [7, 8, 9]\<rparr>" by simp
  from dealloc_clean [of cfg0 init] z have i: "dealloc cfg0 init = Some init" by blast
  from s2(2,3) n ex1_allocated d c z i show ?thesis
    unfolding eq by simp
qed

end
